theory Spec2Isabelle
  imports Complex_Main "HOL-Library.Word" "HOL-Library.Sublist" "HOL-Library.Char_ord"
    "HOL-Library.List_Lexorder"
begin

section \<open>Go strings\<close>

text \<open>
  A Go string is a sequence of bytes; it is modelled as a \<open>string\<close> (a list of
  \<open>char\<close>, each one byte).  The library functions of package \<open>strings\<close> and
  \<open>path/filepath\<close> that the permission manager calls are written out for ASCII text and
  Unix paths: case mapping touches the letters A-Z and a-z only, white space is the six
  ASCII space characters, the path separator is the slash.
\<close>

definition upper_letters :: string where
  "upper_letters = ''ABCDEFGHIJKLMNOPQRSTUVWXYZ''"

definition lower_letters :: string where
  "lower_letters = ''abcdefghijklmnopqrstuvwxyz''"

definition lower_byte :: "char \<Rightarrow> char" where
  "lower_byte c = (case map_of (zip upper_letters lower_letters) c of Some l \<Rightarrow> l | None \<Rightarrow> c)"

definition upper_byte :: "char \<Rightarrow> char" where
  "upper_byte c = (case map_of (zip lower_letters upper_letters) c of Some u \<Rightarrow> u | None \<Rightarrow> c)"

definition ToLower :: "string \<Rightarrow> string" where
  "ToLower s = map lower_byte s"

definition ToUpper :: "string \<Rightarrow> string" where
  "ToUpper s = map upper_byte s"

definition HasPrefix :: "string \<Rightarrow> string \<Rightarrow> bool" where
  "HasPrefix s pre = (length pre \<le> length s \<and> take (length pre) s = pre)"

fun Contains :: "string \<Rightarrow> string \<Rightarrow> bool" where
  "Contains [] sub = (sub = [])"
| "Contains (c # cs) sub = (HasPrefix (c # cs) sub \<or> Contains cs sub)"

text \<open>\<open>strings.Split\<close> with a separator of one byte: the pieces between the separators,
  never an empty list.\<close>

fun Split :: "string \<Rightarrow> char \<Rightarrow> string list" where
  "Split [] sep = [[]]"
| "Split (c # cs) sep =
     (if c = sep then [] # Split cs sep
      else (case Split cs sep of [] \<Rightarrow> [[c]] | x # xs \<Rightarrow> (c # x) # xs))"

definition isSpace :: "char \<Rightarrow> bool" where
  "isSpace c = (c = CHR 0x09 \<or> c = CHR 0x0A \<or> c = CHR 0x0B \<or> c = CHR 0x0C \<or> c = CHR 0x0D \<or> c = CHR '' '')"

text \<open>\<open>strings.Fields\<close>: the maximal runs of bytes that are not white space.\<close>

function Fields :: "string \<Rightarrow> string list" where
  "Fields s =
     (case dropWhile isSpace s of
        [] \<Rightarrow> []
      | c # cs \<Rightarrow> (c # takeWhile (\<lambda>x. \<not> isSpace x) cs) # Fields (dropWhile (\<lambda>x. \<not> isSpace x) cs))"
  by pat_completeness auto
termination
proof (relation "measure length")
  show "wf (measure length)" by simp
next
  fix s :: string and c cs
  assume "dropWhile isSpace s = c # cs"
  then have "length (c # cs) \<le> length s"
    by (metis length_dropWhile_le)
  moreover have "length (dropWhile (\<lambda>x. \<not> isSpace x) cs) \<le> length cs"
    by (rule length_dropWhile_le)
  ultimately show "(dropWhile (\<lambda>x. \<not> isSpace x) cs, s) \<in> measure length"
    by simp
qed

declare Fields.simps [simp del]

subsection \<open>Unix paths\<close>

definition IsAbs :: "string \<Rightarrow> bool" where
  "IsAbs path = HasPrefix path ''/''"

fun join_slash :: "string list \<Rightarrow> string" where
  "join_slash [] = []"
| "join_slash [e] = e"
| "join_slash (e # es) = e @ ''/'' @ join_slash es"

text \<open>The element loop of \<open>filepath.Clean\<close>: \<open>out\<close> holds the elements written so far,
  last one first.  Empty elements and \<open>.\<close> are skipped; \<open>..\<close> removes the last element
  written, is dropped at the root, and is kept at the front of a relative path.\<close>

fun clean_elems :: "bool \<Rightarrow> string list \<Rightarrow> string list \<Rightarrow> string list" where
  "clean_elems rooted out [] = rev out"
| "clean_elems rooted out (e # es) =
     (if e = [] \<or> e = ''.'' then clean_elems rooted out es
      else if e = ''..'' then
        (case out of
           [] \<Rightarrow> if rooted then clean_elems rooted [] es else clean_elems rooted [''..''] es
         | t # ts \<Rightarrow> if t = ''..'' then clean_elems rooted (''..'' # out) es
                     else clean_elems rooted ts es)
      else clean_elems rooted (e # out) es)"

definition Clean :: "string \<Rightarrow> string" where
  "Clean path =
     (if path = [] then ''.''
      else let rooted = HasPrefix path ''/'';
               body = join_slash (clean_elems rooted [] (Split path (CHR ''/'')));
               res = (if rooted then ''/'' @ body else body)
           in if res = [] then ''.'' else res)"

text \<open>\<open>filepath.Dir\<close>: everything up to the last separator, cleaned.\<close>

definition Dir :: "string \<Rightarrow> string" where
  "Dir path = Clean (rev (dropWhile (\<lambda>c. c \<noteq> CHR ''/'') (rev path)))"


section \<open>Dynamic values and tool parameters\<close>

text \<open>
  A value of Go's type \<open>any\<close>, as far as tool parameters hold one: nil, a bool, an
  integer, a float64 (finite; represented by the rational number it denotes), a string, a
  slice and a non-nil \<open>map[string]any\<close>.  A map is an association list; a parameter map
  of type \<open>map[string]any\<close> is \<open>None\<close> when it is the nil map.
\<close>

datatype go_any =
    AnyNil
  | AnyBool bool
  | AnyInt int
  | AnyFloat64 rat
  | AnyString string
  | AnySlice "go_any list"
  | AnyMap "(string \<times> go_any) list"

type_synonym go_map = "(string \<times> go_any) list option"

text \<open>\<open>m[key]\<close>: reading a nil map finds nothing.\<close>

definition map_index :: "go_map \<Rightarrow> string \<Rightarrow> go_any option" where
  "map_index m k = (case m of None \<Rightarrow> None | Some kvs \<Rightarrow> map_of kvs k)"

text \<open>\<open>m[key].(string)\<close> with the comma-ok form: the string, when the key is present
  and holds one.\<close>

definition string_param :: "go_map \<Rightarrow> string \<Rightarrow> string option" where
  "string_param m k = (case map_index m k of Some (AnyString s) \<Rightarrow> Some s | _ \<Rightarrow> None)"

section \<open>Permission manager\<close>

record PermissionRequest =
  ToolName :: string
  Action :: string
  Resource :: string
  Params :: go_map
  RiskLevel :: string
  Description :: string
  RequestID :: string
  Timestamp :: int

record PermissionResponse =
  resp_RequestID :: string
  Allowed :: bool
  Remember :: bool
  Scope :: string
  resp_Timestamp :: int

record PermissionManager =
  allowPatterns :: "string list"
  denyPatterns :: "string list"
  pendingRequests :: "string \<rightharpoonup> PermissionRequest"
  responseChan :: "string \<rightharpoonup> PermissionResponse list"
  globalPath :: string
  projectPath :: string

subsection \<open>Pattern generation and matching\<close>

definition capitalize :: "string \<Rightarrow> string" where
  "capitalize toolName = (case toolName of [] \<Rightarrow> [] | c # cs \<Rightarrow> ToUpper [c] @ cs)"

definition generatePattern :: "PermissionRequest \<Rightarrow> string" where
  "generatePattern req =
     (let toolName = ToLower (ToolName req);
          capitalizedName = capitalize toolName
      in if toolName = ''bash'' then
           (case string_param (Params req) ''command'' of
              Some cmd \<Rightarrow>
                (case Fields cmd of
                   cmdName # _ \<Rightarrow> ''Bash('' @ cmdName @ '':*)''
                 | [] \<Rightarrow> ''Bash(*)'')
            | None \<Rightarrow> ''Bash(*)'')
         else if toolName = ''read'' then ''Read(*)''
         else if toolName = ''write'' then
           (if IsAbs (Resource req) then ''Write('' @ Dir (Resource req) @ ''/*)''
            else ''Write(*)'')
         else if toolName = ''edit'' then
           (if IsAbs (Resource req) then ''Edit('' @ Dir (Resource req) @ ''/*)''
            else ''Edit(*)'')
         else capitalizedName @ ''(*)'')"

definition matchPattern :: "string \<Rightarrow> string \<Rightarrow> bool" where
  "matchPattern reqPattern permPattern =
     (if reqPattern = permPattern then True
      else if Contains permPattern ''*'' then
        HasPrefix reqPattern (hd (Split permPattern (CHR ''*'')))
      else False)"

text \<open>The two loops of \<open>CheckPermission\<close>: the first rule of the list that matches ends
  the loop.\<close>

fun any_rule_matches :: "string \<Rightarrow> string list \<Rightarrow> bool" where
  "any_rule_matches pattern [] = False"
| "any_rule_matches pattern (rule # rules) =
     (if matchPattern pattern rule then True else any_rule_matches pattern rules)"

text \<open>\<open>CheckPermission\<close> returns \<open>(allowed, needAsk, err)\<close>; the error is always nil.\<close>

definition CheckPermission :: "PermissionManager \<Rightarrow> PermissionRequest \<Rightarrow> bool \<times> bool \<times> string option" where
  "CheckPermission pm req =
     (let pattern = generatePattern req
      in if any_rule_matches pattern (denyPatterns pm) then (False, False, None)
         else if any_rule_matches pattern (allowPatterns pm) then (True, False, None)
         else (False, True, None))"

subsection \<open>Risk analysis\<close>

definition dangerousPaths :: "string list" where
  "dangerousPaths = [''/etc'', ''/System'', ''/usr/bin'', ''/usr/sbin'', ''/bin'', ''/sbin'',
     ''/.ssh'', ''/.gnupg'']"

definition dangerousCommands :: "string list" where
  "dangerousCommands = [''rm -rf'', ''sudo'', ''chmod'', ''chown'', ''dd'', ''mkfs'', ''fdisk'',
     ''> /dev/'']"

definition safeCommands :: "string list" where
  "safeCommands = [''ls'', ''pwd'', ''echo'', ''cat'', ''head'', ''tail'', ''grep'', ''find'',
     ''which'', ''whoami'', ''date'', ''uname'']"

fun path_loop :: "string \<Rightarrow> string list \<Rightarrow> bool" where
  "path_loop resource [] = False"
| "path_loop resource (path # paths) =
     (if HasPrefix resource path \<or> Contains resource path then True
      else path_loop resource paths)"

fun fragment_loop :: "string \<Rightarrow> string list \<Rightarrow> bool" where
  "fragment_loop cmdLower [] = False"
| "fragment_loop cmdLower (dangerous # rest) =
     (if Contains cmdLower dangerous then True else fragment_loop cmdLower rest)"

fun safe_loop :: "string \<Rightarrow> string list \<Rightarrow> bool" where
  "safe_loop firstCmd [] = False"
| "safe_loop firstCmd (safe # rest) =
     (if firstCmd = safe then True else safe_loop firstCmd rest)"

definition AnalyzeRiskLevel :: "PermissionRequest \<Rightarrow> string" where
  "AnalyzeRiskLevel req =
     (let toolName = ToLower (ToolName req)
      in if toolName = ''read'' then ''safe''
         else if path_loop (Resource req) dangerousPaths then ''dangerous''
         else if toolName = ''bash'' then
           (case string_param (Params req) ''command'' of
              Some cmd \<Rightarrow>
                (if fragment_loop (ToLower cmd) dangerousCommands then ''dangerous''
                 else (case Fields cmd of
                         firstCmd # _ \<Rightarrow>
                           if safe_loop firstCmd safeCommands then ''safe'' else ''medium''
                       | [] \<Rightarrow> ''medium''))
            | None \<Rightarrow> ''medium'')
         else if toolName = ''write'' \<or> toolName = ''edit'' then ''medium''
         else ''safe'')"

text \<open>A tool call as the assistant emits it, and the resource the agent loop derives from
  it for the permission request.\<close>

record ToolCall =
  tc_Type :: string
  tc_ID :: string
  tc_Name :: string
  tc_Params :: go_map

definition extractResource :: "ToolCall \<Rightarrow> string" where
  "extractResource toolCall =
     (if tc_Name toolCall = ''Read'' \<or> tc_Name toolCall = ''Write'' \<or> tc_Name toolCall = ''Edit'' then
        (case string_param (tc_Params toolCall) ''file_path'' of Some path \<Rightarrow> path | None \<Rightarrow> [])
      else if tc_Name toolCall = ''Bash'' then
        (case string_param (tc_Params toolCall) ''command'' of Some cmd \<Rightarrow> cmd | None \<Rightarrow> [])
      else [])"

text \<open>The request that \<open>executeToolCall\<close> builds before it asks the permission manager.\<close>

definition permission_request_of :: "ToolCall \<Rightarrow> PermissionRequest" where
  "permission_request_of toolCall =
     (let req = \<lparr> ToolName = tc_Name toolCall, Action = ''execute'',
                  Resource = extractResource toolCall, Params = tc_Params toolCall,
                  RiskLevel = [], Description = [], RequestID = [], Timestamp = 0 \<rparr>
      in req \<lparr> RiskLevel := AnalyzeRiskLevel req \<rparr>)"


subsection \<open>The specification's reading of matching, patterns and risk\<close>

text \<open>The matching rule in the specification's words: equality, or a rule with a star
  whose text before the first star is a prefix of the request pattern.\<close>

definition spec_rule_matches :: "string \<Rightarrow> string \<Rightarrow> bool" where
  "spec_rule_matches rule pat =
     (rule = pat \<or> (CHR ''*'' \<in> set rule \<and> prefix (takeWhile (\<lambda>c. c \<noteq> CHR ''*'') rule) pat))"

text \<open>The first token of a command delimited by white space, when there is one.\<close>

definition first_token :: "string \<Rightarrow> string option" where
  "first_token s =
     (case dropWhile isSpace s of
        [] \<Rightarrow> None
      | c # cs \<Rightarrow> Some (takeWhile (\<lambda>x. \<not> isSpace x) (c # cs)))"

text \<open>The pattern of a request, case by case: a Bash command with a first token, a Bash
  request without one, Read, Write and Edit on an absolute path, and everything else.\<close>

definition pattern_spec :: "PermissionRequest \<Rightarrow> string" where
  "pattern_spec req =
     (let name = ToLower (ToolName req)
      in if name = ''bash'' then
           (case Option.bind (string_param (Params req) ''command'') first_token of
              Some tok \<Rightarrow> ''Bash('' @ tok @ '':*)''
            | None \<Rightarrow> ''Bash(*)'')
         else if name = ''read'' then ''Read(*)''
         else if (name = ''write'' \<or> name = ''edit'') \<and> prefix ''/'' (Resource req) then
           capitalize name @ ''('' @ Dir (Resource req) @ ''/*)''
         else capitalize name @ ''(*)'')"

definition begins_with_any :: "string \<Rightarrow> string list \<Rightarrow> bool" where
  "begins_with_any s ps = list_ex (\<lambda>p. prefix p s) ps"

text \<open>The risk level, case by case, with "contains" read as "has as a contiguous
  substring".\<close>

definition risk_spec :: "PermissionRequest \<Rightarrow> string" where
  "risk_spec req =
     (let name = ToLower (ToolName req)
      in if name = ''read'' then ''safe''
         else if \<exists>p \<in> set dangerousPaths. sublist p (Resource req) then ''dangerous''
         else if name = ''bash'' then
           (case string_param (Params req) ''command'' of
              None \<Rightarrow> ''medium''
            | Some cmd \<Rightarrow>
                if \<exists>f \<in> set dangerousCommands. sublist f (ToLower cmd) then ''dangerous''
                else if first_token cmd \<in> Some ` set safeCommands then ''safe''
                else ''medium'')
         else if name = ''write'' \<or> name = ''edit'' then ''medium''
         else ''safe'')"

text \<open>Requests used as examples below.\<close>

definition example_request :: "string \<Rightarrow> string \<Rightarrow> go_map \<Rightarrow> PermissionRequest" where
  "example_request tool resource params =
     \<lparr> ToolName = tool, Action = ''execute'', Resource = resource, Params = params,
       RiskLevel = [], Description = [], RequestID = [], Timestamp = 0 \<rparr>"

definition example_manager :: PermissionManager where
  "example_manager =
     \<lparr> allowPatterns = [''Read(*)'', ''Bash(git:*)''], denyPatterns = [''Bash(rm:*)''],
       pendingRequests = Map.empty, responseChan = Map.empty,
       globalPath = ''/home/u/.cc-mono/settings.json'',
       projectPath = ''/w/.cc-mono/settings.local.json'' \<rparr>"

section \<open>Channels and the event bus\<close>

text \<open>
  A buffered Go channel: the queued values, the capacity and the closed flag.  Channels are
  shared between the bus and its subscribers, so they live in a store (the list
  \<open>chans\<close>, a channel's address being its index) and the bus holds addresses.  The model
  is sequential: a step of the bus or of a subscriber runs to its end before the next one,
  and no goroutine is parked inside a receive while \<open>Publish\<close> runs, so a send finds room
  exactly when the buffer is not full.
\<close>

datatype go_panic = MakeChanNegativeSize | SendOnClosedChannel | CloseOfClosedChannel

record 'e chan =
  buf :: "'e list"
  cap :: nat
  chan_closed :: bool

record 'e EventBus =
  chans :: "'e chan list"
  listeners :: "nat list"
  bus_closed :: bool

definition NewEventBus :: "'e EventBus" where
  "NewEventBus = \<lparr> chans = [], listeners = [], bus_closed = False \<rparr>"

text \<open>\<open>make(chan AgentEvent, n)\<close> panics for a negative size.\<close>

definition make_chan :: "int \<Rightarrow> go_panic + 'e chan" where
  "make_chan n = (if n < 0 then Inl MakeChanNegativeSize
                  else Inr \<lparr> buf = [], cap = nat n, chan_closed = False \<rparr>)"

text \<open>\<open>Subscribe\<close> returns the address of the new channel.\<close>

definition Subscribe :: "int \<Rightarrow> 'e EventBus \<Rightarrow> go_panic + (nat \<times> 'e EventBus)" where
  "Subscribe bufferSize bus =
     (if bus_closed bus then
        (case make_chan 0 of
           Inl p \<Rightarrow> Inl p
         | Inr ch \<Rightarrow>
             Inr (length (chans bus),
                  bus \<lparr> chans := chans bus @ [ch \<lparr> chan_closed := True \<rparr>] \<rparr>))
      else
        (case make_chan bufferSize of
           Inl p \<Rightarrow> Inl p
         | Inr ch \<Rightarrow>
             Inr (length (chans bus),
                  bus \<lparr> chans := chans bus @ [ch],
                        listeners := listeners bus @ [length (chans bus)] \<rparr>)))"

text \<open>The statement \<open>select { case listener <- event: default: }\<close>: a send on a closed
  channel panics; otherwise the event is queued when there is room and skipped when there
  is none.\<close>

definition try_send :: "'e \<Rightarrow> 'e chan \<Rightarrow> go_panic + 'e chan" where
  "try_send event ch =
     (if chan_closed ch then Inl SendOnClosedChannel
      else if length (buf ch) < cap ch then Inr (ch \<lparr> buf := buf ch @ [event] \<rparr>)
      else Inr ch)"

fun publish_loop :: "'e \<Rightarrow> nat list \<Rightarrow> 'e chan list \<Rightarrow> go_panic + 'e chan list" where
  "publish_loop event [] cs = Inr cs"
| "publish_loop event (l # ls) cs =
     (case try_send event (cs ! l) of
        Inl p \<Rightarrow> Inl p
      | Inr ch \<Rightarrow> publish_loop event ls (cs[l := ch]))"

definition Publish :: "'e \<Rightarrow> 'e EventBus \<Rightarrow> go_panic + 'e EventBus" where
  "Publish event bus =
     (if bus_closed bus then Inr bus
      else (case publish_loop event (listeners bus) (chans bus) of
              Inl p \<Rightarrow> Inl p
            | Inr cs \<Rightarrow> Inr (bus \<lparr> chans := cs \<rparr>)))"

definition close_chan :: "'e chan \<Rightarrow> go_panic + 'e chan" where
  "close_chan ch = (if chan_closed ch then Inl CloseOfClosedChannel
                    else Inr (ch \<lparr> chan_closed := True \<rparr>))"

fun close_loop :: "nat list \<Rightarrow> 'e chan list \<Rightarrow> go_panic + 'e chan list" where
  "close_loop [] cs = Inr cs"
| "close_loop (l # ls) cs =
     (case close_chan (cs ! l) of
        Inl p \<Rightarrow> Inl p
      | Inr ch \<Rightarrow> close_loop ls (cs[l := ch]))"

definition Close :: "'e EventBus \<Rightarrow> go_panic + 'e EventBus" where
  "Close bus =
     (if bus_closed bus then Inr bus
      else (case close_loop (listeners bus) (chans bus) of
              Inl p \<Rightarrow> Inl p
            | Inr cs \<Rightarrow> Inr (bus \<lparr> chans := cs, listeners := [], bus_closed := True \<rparr>)))"

definition IsClosed :: "'e EventBus \<Rightarrow> bool" where
  "IsClosed bus = bus_closed bus"

definition ListenerCount :: "'e EventBus \<Rightarrow> nat" where
  "ListenerCount bus = length (listeners bus)"

text \<open>A subscriber's receive \<open>v, ok := <-ch\<close>: the oldest queued value; on an empty
  channel, the report that the channel is closed, or the receiver has to wait.\<close>

datatype 'e recv_result = Received 'e | ChannelClosed | WouldBlock

definition recv :: "'e chan \<Rightarrow> 'e recv_result \<times> 'e chan" where
  "recv ch =
     (case buf ch of
        v # vs \<Rightarrow> (Received v, ch \<lparr> buf := vs \<rparr>)
      | [] \<Rightarrow> (if chan_closed ch then ChannelClosed else WouldBlock, ch))"

text \<open>What one non-blocking send does to a channel that is open.\<close>

definition deliver :: "'e \<Rightarrow> 'e chan \<Rightarrow> 'e chan" where
  "deliver event ch = (if length (buf ch) < cap ch then ch \<lparr> buf := buf ch @ [event] \<rparr> else ch)"

text \<open>The states of bus and store that the operations keep: the listeners are distinct
  addresses of the store, a closed bus has no listeners, and the listeners of an open bus
  are open channels.\<close>

definition bus_inv :: "'e EventBus \<Rightarrow> bool" where
  "bus_inv bus =
     (list_all (\<lambda>l. l < length (chans bus)) (listeners bus)
      \<and> distinct (listeners bus)
      \<and> (if bus_closed bus then listeners bus = []
         else list_all (\<lambda>l. \<not> chan_closed (chans bus ! l)) (listeners bus)))"

text \<open>Steps of the bus and of its subscribers, and runs of such steps.  A run stops at
  the first panic.\<close>

datatype 'e bus_op = DoPublish 'e | DoSubscribe int | DoClose | DoReceive nat

definition bus_step :: "'e bus_op \<Rightarrow> 'e EventBus \<Rightarrow> go_panic + 'e EventBus" where
  "bus_step op bus =
     (case op of
        DoPublish event \<Rightarrow> Publish event bus
      | DoSubscribe n \<Rightarrow> (case Subscribe n bus of Inl p \<Rightarrow> Inl p | Inr (_, bus') \<Rightarrow> Inr bus')
      | DoClose \<Rightarrow> Close bus
      | DoReceive a \<Rightarrow>
          (if a < length (chans bus)
           then Inr (bus \<lparr> chans := (chans bus)[a := snd (recv (chans bus ! a))] \<rparr>)
           else Inr bus))"

fun bus_run :: "'e bus_op list \<Rightarrow> 'e EventBus \<Rightarrow> go_panic + 'e EventBus" where
  "bus_run [] bus = Inr bus"
| "bus_run (op # ops) bus =
     (case bus_step op bus of Inl p \<Rightarrow> Inl p | Inr bus' \<Rightarrow> bus_run ops bus')"

text \<open>The channel handed out by a closed bus: closed, empty, and nothing changes that.\<close>

definition dead_chan :: "nat \<Rightarrow> 'e EventBus \<Rightarrow> bool" where
  "dead_chan a bus =
     (bus_closed bus \<and> a < length (chans bus) \<and> buf (chans bus ! a) = [] \<and> chan_closed (chans bus ! a))"


text \<open>A bus with two subscribers, the first with a full buffer.\<close>

definition example_bus :: "string EventBus" where
  "example_bus =
     \<lparr> chans = [\<lparr> buf = [''agent_start''], cap = 1, chan_closed = False \<rparr>,
                \<lparr> buf = [''agent_start''], cap = 2, chan_closed = False \<rparr>],
       listeners = [0, 1], bus_closed = False \<rparr>"


section \<open>JSON documents and \<open>encoding/json\<close>\<close>

text \<open>
  Marshalling and unmarshalling are modelled on parsed documents: a JSON text is the tree
  it denotes, so printing a tree and parsing it back is the identity and white space and
  indentation are not seen.  A number literal is kept as an integer literal (\<open>JInt\<close>) or
  as a literal with a fraction or an exponent (\<open>JFrac\<close>, with its value); the members of
  an object are kept in their order.  Strings are taken to be valid UTF-8, which
  \<open>encoding/json\<close> writes and reads back unchanged.
\<close>

datatype json =
    JNull
  | JBool bool
  | JInt int
  | JFrac rat
  | JStr string
  | JArr "json list"
  | JObj "(string \<times> json) list"

datatype json_error =
    UnmarshalTypeError
  | SyntaxError
  | UnknownMessageType string
  | UnknownContentType string

text \<open>
  Decoding an object into a struct visits the members in order; a member whose key equals a
  field's name, or equals it when letter case is ignored, is decoded into that field, any
  other member is skipped.  A value of the wrong kind is an error.  Decoding \<open>null\<close> into
  a struct, string, number or bool leaves the Go value as it was.
\<close>

fun dec_members ::
  "(string \<Rightarrow> json \<Rightarrow> 's \<Rightarrow> json_error + 's) \<Rightarrow> (string \<times> json) list \<Rightarrow> 's \<Rightarrow> json_error + 's" where
  "dec_members field [] s = Inr s"
| "dec_members field ((k, v) # ms) s =
     (case field k v s of Inl e \<Rightarrow> Inl e | Inr s' \<Rightarrow> dec_members field ms s')"

definition dec_struct ::
  "(string \<Rightarrow> json \<Rightarrow> 's \<Rightarrow> json_error + 's) \<Rightarrow> json \<Rightarrow> 's \<Rightarrow> json_error + 's" where
  "dec_struct field j s =
     (case j of
        JNull \<Rightarrow> Inr s
      | JObj ms \<Rightarrow> dec_members field ms s
      | _ \<Rightarrow> Inl UnmarshalTypeError)"

definition dec_string :: "json \<Rightarrow> string \<Rightarrow> json_error + string" where
  "dec_string j old =
     (case j of JNull \<Rightarrow> Inr old | JStr s \<Rightarrow> Inr s | _ \<Rightarrow> Inl UnmarshalTypeError)"


text \<open>The elements of an array decoded into a \<open>[]string\<close>.\<close>

fun dec_string_elems :: "json list \<Rightarrow> json_error + string list" where
  "dec_string_elems [] = Inr []"
| "dec_string_elems (j # js) =
     (case dec_string j [] of
        Inl e \<Rightarrow> Inl e
      | Inr s \<Rightarrow> (case dec_string_elems js of Inl e \<Rightarrow> Inl e | Inr ss \<Rightarrow> Inr (s # ss)))"

text \<open>A slice is a list; the nil slice and the empty slice are both \<open>[]\<close>.\<close>

definition dec_string_slice :: "json \<Rightarrow> json_error + string list" where
  "dec_string_slice j =
     (case j of JNull \<Rightarrow> Inr [] | JArr js \<Rightarrow> dec_string_elems js | _ \<Rightarrow> Inl UnmarshalTypeError)"

section \<open>Settings files\<close>

record PermissionSettings =
  Allow :: "string list"
  Deny :: "string list"

record Settings =
  Permissions :: "PermissionSettings option"

definition no_PermissionSettings :: PermissionSettings where
  "no_PermissionSettings = \<lparr> Allow = [], Deny = [] \<rparr>"

definition PermissionSettings_field ::
  "string \<Rightarrow> json \<Rightarrow> PermissionSettings \<Rightarrow> json_error + PermissionSettings" where
  "PermissionSettings_field k v ps =
     (if ToLower k = ''allow'' then
        (case dec_string_slice v of Inl e \<Rightarrow> Inl e | Inr xs \<Rightarrow> Inr (ps \<lparr> Allow := xs \<rparr>))
      else if ToLower k = ''deny'' then
        (case dec_string_slice v of Inl e \<Rightarrow> Inl e | Inr xs \<Rightarrow> Inr (ps \<lparr> Deny := xs \<rparr>))
      else Inr ps)"

text \<open>The field \<open>Permissions\<close> is a pointer: \<open>null\<close> makes it nil, an object is decoded
  into the struct it points to, which is allocated when the pointer is nil.\<close>

definition Settings_field :: "string \<Rightarrow> json \<Rightarrow> Settings \<Rightarrow> json_error + Settings" where
  "Settings_field k v s =
     (if ToLower k = ''permissions'' then
        (case v of
           JNull \<Rightarrow> Inr (s \<lparr> Permissions := None \<rparr>)
         | _ \<Rightarrow>
           (case dec_struct PermissionSettings_field v
                   (case Permissions s of None \<Rightarrow> no_PermissionSettings | Some ps \<Rightarrow> ps) of
              Inl e \<Rightarrow> Inl e
            | Inr ps \<Rightarrow> Inr (s \<lparr> Permissions := Some ps \<rparr>)))
      else Inr s)"

text \<open>\<open>json.Unmarshal(data, settings)\<close> with \<open>settings := &Settings{}\<close>.\<close>

definition Unmarshal_Settings :: "json \<Rightarrow> json_error + Settings" where
  "Unmarshal_Settings j = dec_struct Settings_field j \<lparr> Permissions = None \<rparr>"

text \<open>\<open>json.MarshalIndent(settings, "", "  ")\<close>: every field is \<open>omitempty\<close>.\<close>

definition Marshal_PermissionSettings :: "PermissionSettings \<Rightarrow> json" where
  "Marshal_PermissionSettings ps =
     JObj ((if Allow ps = [] then [] else [(''allow'', JArr (map JStr (Allow ps)))])
           @ (if Deny ps = [] then [] else [(''deny'', JArr (map JStr (Deny ps)))]))"

definition Marshal_Settings :: "Settings \<Rightarrow> json" where
  "Marshal_Settings s =
     JObj (case Permissions s of
             None \<Rightarrow> []
           | Some ps \<Rightarrow> [(''permissions'', Marshal_PermissionSettings ps)])"

subsection \<open>Files\<close>

text \<open>
  What \<open>os.ReadFile\<close> finds at a path: no file, a file that cannot be read, or the bytes
  of the file, which are empty, not a JSON text, or a JSON document.  Whether creating the
  directory and writing the file at a path fails is the environment's choice
  (\<open>write_fails\<close>); directories are not modelled otherwise.
\<close>

datatype file_data = NoBytes | NotJSON | Doc json

datatype inode = Missing | Unreadable | Data file_data

record filesystem =
  files :: "string \<Rightarrow> inode"
  write_fails :: "string \<Rightarrow> bool"

datatype save_error = ReadError | DecodeError json_error | WriteError

definition persistSettings :: "string \<Rightarrow> Settings \<Rightarrow> filesystem \<Rightarrow> save_error option \<times> filesystem" where
  "persistSettings path settings fs =
     (if write_fails fs path then (Some WriteError, fs)
      else (None, fs \<lparr> files := (files fs)(path := Data (Doc (Marshal_Settings settings))) \<rparr>))"

fun found_loop :: "string \<Rightarrow> string list \<Rightarrow> bool" where
  "found_loop pattern [] = False"
| "found_loop pattern (p # ps) = (if p = pattern then True else found_loop pattern ps)"

definition settings_path :: "PermissionManager \<Rightarrow> string \<Rightarrow> string" where
  "settings_path pm scope = (if scope = ''global'' then globalPath pm else projectPath pm)"

definition savePermission ::
  "PermissionRequest \<Rightarrow> bool \<Rightarrow> string \<Rightarrow> PermissionManager \<times> filesystem
     \<Rightarrow> save_error option \<times> PermissionManager \<times> filesystem" where
  "savePermission req allowed scope world =
     (let pm = fst world; fs = snd world;
          pattern = generatePattern req;
          settingsPath = settings_path pm scope
      in case files fs settingsPath of
           Unreadable \<Rightarrow> (Some ReadError, pm, fs)
         | node \<Rightarrow>
           (case (case node of
                    Data (Doc j) \<Rightarrow> Unmarshal_Settings j
                  | Data NotJSON \<Rightarrow> Inl SyntaxError
                  | _ \<Rightarrow> Inr \<lparr> Permissions = None \<rparr>) of
              Inl e \<Rightarrow> (Some (DecodeError e), pm, fs)
            | Inr settings \<Rightarrow>
                let perms = (case Permissions settings of
                               None \<Rightarrow> no_PermissionSettings | Some ps \<Rightarrow> ps)
                in if allowed then
                     (if found_loop pattern (Allow perms) then
                        (case persistSettings settingsPath (settings \<lparr> Permissions := Some perms \<rparr>) fs of
                           (err, fs') \<Rightarrow> (err, pm, fs'))
                      else
                        (case persistSettings settingsPath
                                (settings \<lparr> Permissions := Some (perms \<lparr> Allow := Allow perms @ [pattern] \<rparr>) \<rparr>) fs of
                           (err, fs') \<Rightarrow>
                             (err, pm \<lparr> allowPatterns := allowPatterns pm @ [pattern] \<rparr>, fs')))
                   else
                     (if found_loop pattern (Deny perms) then
                        (case persistSettings settingsPath (settings \<lparr> Permissions := Some perms \<rparr>) fs of
                           (err, fs') \<Rightarrow> (err, pm, fs'))
                      else
                        (case persistSettings settingsPath
                                (settings \<lparr> Permissions := Some (perms \<lparr> Deny := Deny perms @ [pattern] \<rparr>) \<rparr>) fs of
                           (err, fs') \<Rightarrow>
                             (err, pm \<lparr> denyPatterns := denyPatterns pm @ [pattern] \<rparr>, fs')))))"

text \<open>Example: a project settings file with one rule and one field that is not part of
  the \<open>Settings\<close> struct, and the same file without that field.\<close>

definition example_fs :: "json \<Rightarrow> filesystem" where
  "example_fs doc =
     \<lparr> files = (\<lambda>_. Missing)(''/w/.cc-mono/settings.local.json'' := Data (Doc doc)),
       write_fails = (\<lambda>_. False) \<rparr>"

definition settings_with_theme :: json where
  "settings_with_theme =
     JObj [(''theme'', JStr ''dark''),
           (''permissions'', JObj [(''allow'', JArr [JStr ''Read(*)''])])]"

definition settings_plain :: json where
  "settings_plain = JObj [(''permissions'', JObj [(''allow'', JArr [JStr ''Read(*)''])])]"

section \<open>Asking the user\<close>

text \<open>\<open>fmt.Sprintf("%d", n)\<close>: the decimal digits of an integer.\<close>

definition digit :: "nat \<Rightarrow> char" where
  "digit d = ''0123456789'' ! d"

function decimal :: "nat \<Rightarrow> string" where
  "decimal n = (if n < 10 then [digit n] else decimal (n div 10) @ [digit (n mod 10)])"
  by pat_completeness auto
termination
  by (relation "measure id") auto

declare decimal.simps [simp del]

definition format_int :: "int \<Rightarrow> string" where
  "format_int i = (if i < 0 then ''-'' @ decimal (nat (- i)) else decimal (nat i))"

text \<open>
  The readings of the clock during one call: nanoseconds and milliseconds when the request
  is registered, milliseconds when the wait is over.  The hash is SHA-256 printed as the
  hexadecimal digits of its first eight bytes; it is a parameter.
\<close>

record clock =
  now_ns :: int
  now_ms :: int
  later_ms :: int

definition generateRequestID :: "(string \<Rightarrow> string) \<Rightarrow> clock \<Rightarrow> PermissionRequest \<Rightarrow> string" where
  "generateRequestID sha256_hex8 clk req =
     sha256_hex8 (ToolName req @ '':'' @ Action req @ '':'' @ Resource req @ '':''
                  @ format_int (now_ns clk))"

text \<open>
  \<open>RespondToRequest\<close>, called by another goroutine.  A response channel has room for
  one response; a send to a channel that already holds one blocks, with the manager's lock
  held, which is the result \<open>None\<close>.  Otherwise the result is the error, if any, and the
  manager.
\<close>

definition RespondToRequest ::
  "string \<Rightarrow> bool \<Rightarrow> bool \<Rightarrow> string \<Rightarrow> int \<Rightarrow> PermissionManager
     \<Rightarrow> (string option \<times> PermissionManager) option" where
  "RespondToRequest requestID allowed remember scope now pm =
     (case responseChan pm requestID of
        None \<Rightarrow> Some (Some (''no pending request with ID: '' @ requestID), pm)
      | Some queued \<Rightarrow>
          if length queued < 1 then
            Some (None, pm \<lparr> responseChan := (responseChan pm)(requestID \<mapsto>
                    queued @ [\<lparr> resp_RequestID = requestID, Allowed = allowed,
                                Remember = remember, Scope = scope, resp_Timestamp = now \<rparr>]) \<rparr>)
          else None)"

text \<open>
  What happens around a call while it is blocked in its \<open>select\<close>, in the order in which
  it happens: another goroutine calls \<open>RespondToRequest\<close>, the timer of
  \<open>time.After(5 * time.Minute)\<close> fires, or the context is cancelled (with the error that
  \<open>ctx.Err()\<close> then reports).  The list is a finite stretch of time; a call that is still
  blocked at its end has result \<open>None\<close>.
\<close>

datatype wake =
    Respond string bool bool string
  | TimerFires
  | ContextDone string

datatype wait_result = GotResponse PermissionResponse | TimedOut | Cancelled string

text \<open>The \<open>select\<close> of a call registered under \<open>requestID\<close>; \<open>timer\<close> and \<open>ctx\<close>
  say whether the statement has a case for the timer and for the context.\<close>

fun await ::
  "bool \<Rightarrow> bool \<Rightarrow> string \<Rightarrow> int \<Rightarrow> wake list \<Rightarrow> PermissionManager
     \<Rightarrow> (wait_result \<times> PermissionManager) option" where
  "await timer ctx requestID now [] pm = None"
| "await timer ctx requestID now (Respond rid allowed remember scope # ws) pm =
     (case RespondToRequest rid allowed remember scope now pm of
        None \<Rightarrow> None
      | Some (_, pm') \<Rightarrow>
          (case responseChan pm' requestID of
             Some (resp # _) \<Rightarrow> Some (GotResponse resp, pm')
           | _ \<Rightarrow> await timer ctx requestID now ws pm'))"
| "await timer ctx requestID now (TimerFires # ws) pm =
     (if timer then Some (TimedOut, pm) else await timer ctx requestID now ws pm)"
| "await timer ctx requestID now (ContextDone e # ws) pm =
     (if ctx then Some (Cancelled e, pm) else await timer ctx requestID now ws pm)"

record request_result =
  response :: PermissionResponse
  err :: "string option"
  request :: PermissionRequest
  manager :: PermissionManager
  disk :: filesystem

definition register_request ::
  "(string \<Rightarrow> string) \<Rightarrow> clock \<Rightarrow> PermissionRequest \<Rightarrow> PermissionManager
     \<Rightarrow> PermissionRequest \<times> PermissionManager" where
  "register_request sha256_hex8 clk req pm =
     (let req1 = (if RequestID req = [] then req \<lparr> RequestID := generateRequestID sha256_hex8 clk req \<rparr>
                  else req);
          req2 = req1 \<lparr> Timestamp := now_ms clk \<rparr>
      in (req2, pm \<lparr> pendingRequests := (pendingRequests pm)(RequestID req2 \<mapsto> req2),
                      responseChan := (responseChan pm)(RequestID req2 \<mapsto> []) \<rparr>))"

definition clean_up :: "string \<Rightarrow> PermissionManager \<Rightarrow> PermissionManager" where
  "clean_up requestID pm =
     pm \<lparr> pendingRequests := (pendingRequests pm)(requestID := None),
          responseChan := (responseChan pm)(requestID := None) \<rparr>"

definition denied :: "string \<Rightarrow> clock \<Rightarrow> PermissionResponse" where
  "denied requestID clk =
     \<lparr> resp_RequestID = requestID, Allowed = False, Remember = False, Scope = [],
       resp_Timestamp = later_ms clk \<rparr>"

text \<open>The branch of both functions that has received a response.\<close>

definition on_response ::
  "PermissionResponse \<Rightarrow> PermissionRequest \<Rightarrow> PermissionManager \<Rightarrow> filesystem \<Rightarrow> request_result" where
  "on_response resp req pm fs =
     (let pm1 = clean_up (RequestID req) pm
      in if Remember resp then
           (case savePermission req (Allowed resp) (Scope resp) (pm1, fs) of
              (Some e, pm2, fs2) \<Rightarrow>
                \<lparr> response = resp, err = Some ''failed to save permission'', request = req,
                  manager = pm2, disk = fs2 \<rparr>
            | (None, pm2, fs2) \<Rightarrow>
                \<lparr> response = resp, err = None, request = req, manager = pm2, disk = fs2 \<rparr>)
         else \<lparr> response = resp, err = None, request = req, manager = pm1, disk = fs \<rparr>)"

definition RequestPermission ::
  "(string \<Rightarrow> string) \<Rightarrow> clock \<Rightarrow> PermissionRequest \<Rightarrow> wake list
     \<Rightarrow> PermissionManager \<times> filesystem \<Rightarrow> request_result option" where
  "RequestPermission sha256_hex8 clk req0 wakes world =
     (case register_request sha256_hex8 clk req0 (fst world) of
        (req, pm) \<Rightarrow>
          (case await True False (RequestID req) (later_ms clk) wakes pm of
             None \<Rightarrow> None
           | Some (GotResponse resp, pm') \<Rightarrow> Some (on_response resp req pm' (snd world))
           | Some (_, pm') \<Rightarrow>
               Some \<lparr> response = denied (RequestID req) clk,
                      err = Some ''permission request timed out'', request = req,
                      manager = clean_up (RequestID req) pm', disk = snd world \<rparr>))"

definition RequestPermissionWithContext ::
  "(string \<Rightarrow> string) \<Rightarrow> clock \<Rightarrow> PermissionRequest \<Rightarrow> wake list
     \<Rightarrow> PermissionManager \<times> filesystem \<Rightarrow> request_result option" where
  "RequestPermissionWithContext sha256_hex8 clk req0 wakes world =
     (case register_request sha256_hex8 clk req0 (fst world) of
        (req, pm) \<Rightarrow>
          (case await False True (RequestID req) (later_ms clk) wakes pm of
             None \<Rightarrow> None
           | Some (GotResponse resp, pm') \<Rightarrow> Some (on_response resp req pm' (snd world))
           | Some (Cancelled e, pm') \<Rightarrow>
               Some \<lparr> response = denied (RequestID req) clk, err = Some e, request = req,
                      manager = clean_up (RequestID req) pm', disk = snd world \<rparr>
           | Some (TimedOut, pm') \<Rightarrow> None))"

subsection \<open>What ends a call\<close>

text \<open>Whether an event ends the wait of the call registered under \<open>requestID\<close>: a
  response for that id; the timer, for a call that set one; the cancellation, for a call
  that watches a context.\<close>

definition terminates :: "bool \<Rightarrow> bool \<Rightarrow> string \<Rightarrow> wake \<Rightarrow> bool" where
  "terminates timer ctx requestID w =
     (case w of
        Respond rid _ _ _ \<Rightarrow> rid = requestID
      | TimerFires \<Rightarrow> timer
      | ContextDone _ \<Rightarrow> ctx)"

definition first_terminator :: "bool \<Rightarrow> bool \<Rightarrow> string \<Rightarrow> wake list \<Rightarrow> wake option" where
  "first_terminator timer ctx requestID wakes = find (terminates timer ctx requestID) wakes"

text \<open>Responses for other requests do not concern a call as long as they find no channel
  that is already full: here, every response in the list is for the call itself or for an
  id that has no channel.\<close>

definition quiet_elsewhere :: "string \<Rightarrow> PermissionManager \<Rightarrow> wake list \<Rightarrow> bool" where
  "quiet_elsewhere requestID pm wakes =
     list_all (\<lambda>w. case w of
                      Respond rid _ _ _ \<Rightarrow> rid = requestID \<or> responseChan pm rid = None
                    | _ \<Rightarrow> True) wakes"

definition answer :: "string \<Rightarrow> bool \<Rightarrow> bool \<Rightarrow> string \<Rightarrow> clock \<Rightarrow> PermissionResponse" where
  "answer requestID allowed remember scope clk =
     \<lparr> resp_RequestID = requestID, Allowed = allowed, Remember = remember, Scope = scope,
       resp_Timestamp = later_ms clk \<rparr>"

definition denial ::
  "PermissionRequest \<Rightarrow> PermissionManager \<Rightarrow> clock \<Rightarrow> string \<Rightarrow> filesystem \<Rightarrow> request_result" where
  "denial req pm clk message fs =
     \<lparr> response = denied (RequestID req) clk, err = Some message, request = req,
       manager = clean_up (RequestID req) pm, disk = fs \<rparr>"

definition example_clock :: clock where
  "example_clock = \<lparr> now_ns = 5000000, now_ms = 5, later_ms = 9 \<rparr>"

definition example_ask :: PermissionRequest where
  "example_ask =
     \<lparr> ToolName = ''Bash'', Action = ''execute'', Resource = ''make'',
       Params = Some [(''command'', AnyString ''make'')],
       RiskLevel = ''medium'', Description = ''Execute command: make'', RequestID = ''r1'',
       Timestamp = 0 \<rparr>"

section \<open>Messages\<close>

text \<open>
  The message and content types of package \<open>ai\<close>.  A Go struct is a record with the
  fields of the struct; the \<open>Type\<close> field of a struct is a field like any other and
  need not name the struct's kind.  The interfaces \<open>Content\<close> and \<open>Message\<close> are the
  datatypes of their implementations.  \<open>int\<close> and \<open>int64\<close> are 64-bit words.
\<close>

type_synonym int64 = "64 word"

record ImageSource =
  src_Type :: string
  src_URL :: string
  src_Data :: string
  src_MediaType :: string

datatype Content =
    TextContent string string
  | ThinkingContent string string
  | ToolCallContent ToolCall
  | ImageContent string ImageSource

definition NewTextContent :: "string \<Rightarrow> Content" where
  "NewTextContent text = TextContent ''text'' text"

definition NewThinkingContent :: "string \<Rightarrow> Content" where
  "NewThinkingContent thinking = ThinkingContent ''thinking'' thinking"

definition NewToolCall :: "string \<Rightarrow> string \<Rightarrow> go_map \<Rightarrow> ToolCall" where
  "NewToolCall ident name params =
     \<lparr> tc_Type = ''tool_call'', tc_ID = ident, tc_Name = name, tc_Params = params \<rparr>"

record Usage =
  InputTokens :: int64
  OutputTokens :: int64
  TotalTokens :: int64

record UserMessage =
  um_Type :: string
  um_Content :: "Content list"
  um_Timestamp :: int64

record AssistantMessage =
  as_Type :: string
  as_Content :: "Content list"
  as_API :: string
  as_Provider :: string
  as_Model :: string
  as_Usage :: Usage
  as_StopReason :: string
  as_ErrorMessage :: string
  as_Timestamp :: int64

record ToolResultMessage =
  tr_Type :: string
  tr_ToolCallID :: string
  tr_ToolName :: string
  tr_Content :: "Content list"
  tr_Details :: go_any
  tr_IsError :: bool
  tr_Timestamp :: int64

datatype Message =
    User UserMessage
  | Assistant AssistantMessage
  | ToolResult ToolResultMessage

definition NewUserMessage :: "int64 \<Rightarrow> Content list \<Rightarrow> UserMessage" where
  "NewUserMessage now content = \<lparr> um_Type = ''user'', um_Content = content, um_Timestamp = now \<rparr>"

definition NewUserTextMessage :: "int64 \<Rightarrow> string \<Rightarrow> UserMessage" where
  "NewUserTextMessage now text = NewUserMessage now [TextContent ''text'' text]"

definition NewAssistantMessage ::
  "int64 \<Rightarrow> Content list \<Rightarrow> string \<Rightarrow> string \<Rightarrow> string \<Rightarrow> Usage \<Rightarrow> string \<Rightarrow> AssistantMessage" where
  "NewAssistantMessage now content api provider model usage stopReason =
     \<lparr> as_Type = ''assistant'', as_Content = content, as_API = api, as_Provider = provider,
       as_Model = model, as_Usage = usage, as_StopReason = stopReason, as_ErrorMessage = [],
       as_Timestamp = now \<rparr>"

definition NewToolResultMessage ::
  "int64 \<Rightarrow> string \<Rightarrow> string \<Rightarrow> Content list \<Rightarrow> bool \<Rightarrow> ToolResultMessage" where
  "NewToolResultMessage now toolCallID toolName content isError =
     \<lparr> tr_Type = ''tool_result'', tr_ToolCallID = toolCallID, tr_ToolName = toolName,
       tr_Content = content, tr_Details = AnyNil, tr_IsError = isError, tr_Timestamp = now \<rparr>"

text \<open>An event of the assistant message stream.\<close>

record AssistantMessageEvent =
  ev_Type :: string
  ev_ContentType :: string
  ev_TextDelta :: string
  ev_ThinkingDelta :: string
  ev_ToolCall :: "ToolCall option"
  ev_Usage :: "Usage option"
  ev_StopReason :: string
  ev_Error :: string

definition blank_event :: AssistantMessageEvent where
  "blank_event =
     \<lparr> ev_Type = [], ev_ContentType = [], ev_TextDelta = [], ev_ThinkingDelta = [],
       ev_ToolCall = None, ev_Usage = None, ev_StopReason = [], ev_Error = [] \<rparr>"

definition NewTextDeltaEvent :: "string \<Rightarrow> AssistantMessageEvent" where
  "NewTextDeltaEvent delta =
     blank_event \<lparr> ev_Type := ''content_delta'', ev_ContentType := ''text'', ev_TextDelta := delta \<rparr>"

definition NewEndEvent :: "string \<Rightarrow> AssistantMessageEvent" where
  "NewEndEvent stopReason = blank_event \<lparr> ev_Type := ''end'', ev_StopReason := stopReason \<rparr>"

section \<open>Agent state\<close>

text \<open>The envelope of a message in the history.  The zero value \<open>AgentMessage{}\<close> has no
  message.\<close>

record AgentMessage =
  msg_Message :: "Message option"
  msg_ID :: string
  msg_CreatedAt :: int64

definition no_AgentMessage :: AgentMessage where
  "no_AgentMessage = \<lparr> msg_Message = None, msg_ID = [], msg_CreatedAt = 0 \<rparr>"

text \<open>Of a model the loop reads the id and the provider.\<close>

record Model =
  model_ID :: string
  model_Provider :: string
  model_Name :: string

text \<open>A tool of the state, without its \<open>Execute\<close> function, which belongs to the
  environment of the loop.\<close>

record AgentTool =
  tool_Name :: string
  tool_Description :: string
  tool_Label :: string

record AgentState =
  SystemPrompt :: string
  CurrentModel :: Model
  ThinkingLevel :: string
  Tools :: "AgentTool list"
  Messages :: "AgentMessage list"
  IsStreaming :: bool
  StreamMessage :: AgentMessage
  PendingToolCalls :: "string set"
  LastError :: string

definition NewAgentState :: "string \<Rightarrow> Model \<Rightarrow> AgentTool list \<Rightarrow> AgentState" where
  "NewAgentState systemPrompt model tools =
     \<lparr> SystemPrompt = systemPrompt, CurrentModel = model, ThinkingLevel = ''none'',
       Tools = tools, Messages = [], IsStreaming = False, StreamMessage = no_AgentMessage,
       PendingToolCalls = {}, LastError = [] \<rparr>"

definition AddMessage :: "AgentMessage \<Rightarrow> AgentState \<Rightarrow> AgentState" where
  "AddMessage message s = s \<lparr> Messages := Messages s @ [message] \<rparr>"

definition SetIsStreaming :: "bool \<Rightarrow> AgentState \<Rightarrow> AgentState" where
  "SetIsStreaming streaming s = s \<lparr> IsStreaming := streaming \<rparr>"

definition SetStreamMessage :: "AgentMessage \<Rightarrow> AgentState \<Rightarrow> AgentState" where
  "SetStreamMessage message s = s \<lparr> StreamMessage := message \<rparr>"

definition AddPendingToolCall :: "string \<Rightarrow> AgentState \<Rightarrow> AgentState" where
  "AddPendingToolCall toolCallID s = s \<lparr> PendingToolCalls := insert toolCallID (PendingToolCalls s) \<rparr>"

definition RemovePendingToolCall :: "string \<Rightarrow> AgentState \<Rightarrow> AgentState" where
  "RemovePendingToolCall toolCallID s = s \<lparr> PendingToolCalls := PendingToolCalls s - {toolCallID} \<rparr>"

definition SetError :: "string \<Rightarrow> AgentState \<Rightarrow> AgentState" where
  "SetError e s = s \<lparr> LastError := e \<rparr>"

section \<open>The agent loop\<close>

record AgentLoopConfig =
  MaxTurns :: int
  MaxToolCalls :: int
  EnableSteering :: bool
  EnableCompaction :: bool

text \<open>The events that the loop itself publishes.  What \<open>Publish\<close> does with an event is
  the subject of the event bus above; here the bus is the list of the events handed to it.\<close>

datatype AgentEvent =
    AgentStartEvent
  | AgentEndEvent "AgentMessage list"
  | TurnStartEvent
  | TurnEndEvent AgentMessage "ToolResultMessage list"
  | MessageUpdateEvent AgentMessage AssistantMessageEvent
  | PromptAddedEvent AgentMessage
  | ErrorEvent string string

text \<open>
  What the loop works on: the agent state, the two queues of the agent context and the
  events published so far.
\<close>

record world =
  state :: AgentState
  SteeringQueue :: "AgentMessage list"
  FollowUpQueue :: "AgentMessage list"
  published :: "AgentEvent list"

definition publish :: "AgentEvent \<Rightarrow> world \<Rightarrow> world" where
  "publish event w = w \<lparr> published := published w @ [event] \<rparr>"

definition on_state :: "(AgentState \<Rightarrow> AgentState) \<Rightarrow> world \<Rightarrow> world" where
  "on_state f w = w \<lparr> state := f (state w) \<rparr>"

text \<open>
  What the other goroutines do during one turn, in order: the provider delivers an event
  on the stream, or a caller pushes a message on the steering queue or on the follow-up
  queue.  After the last item the provider closes the event channel, or it does not, and
  then the loop waits for the next event for ever.  \<open>stream_error\<close> is what
  \<open>stream.Error()\<close> reports after the event loop, \<open>stream_result\<close> what arrives on the
  result channel: nothing, when the provider never sends a result.
\<close>

datatype item = Arrives AssistantMessageEvent | Steers AgentMessage | FollowsUp AgentMessage

record turn_script =
  items :: "item list"
  closes :: bool
  stream_error :: "string option"
  stream_result :: "AssistantMessage option"

text \<open>The readings of the clock, the same all through a run.\<close>

record loop_clock =
  unix_nano :: int64
  unix_milli :: int64

record accum =
  textContent :: string
  thinkingContent :: string
  toolCalls :: "ToolCall list"
  usage :: Usage

definition no_Usage :: Usage where
  "no_Usage = \<lparr> InputTokens = 0, OutputTokens = 0, TotalTokens = 0 \<rparr>"

definition no_accum :: accum where
  "no_accum = \<lparr> textContent = [], thinkingContent = [], toolCalls = [], usage = no_Usage \<rparr>"

text \<open>The message that a content delta puts into the streaming cursor.\<close>

definition stream_message :: "loop_clock \<Rightarrow> AgentState \<Rightarrow> accum \<Rightarrow> AgentMessage" where
  "stream_message clk s acc =
     (let currentContent =
            (if textContent acc \<noteq> [] then [NewTextContent (textContent acc)] else [])
            @ (if thinkingContent acc \<noteq> [] then [NewThinkingContent (thinkingContent acc)] else [])
      in \<lparr> msg_Message = Some (Assistant (NewAssistantMessage (unix_milli clk) currentContent
                ''streaming'' (model_Provider (CurrentModel s)) (model_ID (CurrentModel s))
                (usage acc) ''end_turn'')),
            msg_ID = ''stream-'' @ format_int (sint (unix_nano clk)),
            msg_CreatedAt = unix_milli clk \<rparr>)"

datatype loop_exit = Drained | Interrupted | StreamFailed string | Starved

text \<open>
  The loop \<open>for event := range stream.Events()\<close>.  It ends when the channel is closed
  and empty (\<open>Drained\<close>), at the \<open>break\<close> after \<open>stream.Close()\<close> (\<open>Interrupted\<close>), at
  the \<open>return\<close> of the error case (\<open>StreamFailed\<close>), or never (\<open>Starved\<close>).  The items
  that are left when the loop ends are returned with the exit.
\<close>

fun event_loop ::
  "loop_clock \<Rightarrow> AgentLoopConfig \<Rightarrow> bool \<Rightarrow> item list \<Rightarrow> accum \<Rightarrow> world
     \<Rightarrow> loop_exit \<times> item list \<times> accum \<times> world" where
  "event_loop clk config closing [] acc w = (if closing then Drained else Starved, [], acc, w)"
| "event_loop clk config closing (Steers m # rest) acc w =
     event_loop clk config closing rest acc (w \<lparr> SteeringQueue := SteeringQueue w @ [m] \<rparr>)"
| "event_loop clk config closing (FollowsUp m # rest) acc w =
     event_loop clk config closing rest acc (w \<lparr> FollowUpQueue := FollowUpQueue w @ [m] \<rparr>)"
| "event_loop clk config closing (Arrives event # rest) acc w =
     (if EnableSteering config \<and> SteeringQueue w \<noteq> [] then (Interrupted, rest, acc, w)
      else if ev_Type event = ''content_delta'' then
        (let acc1 = (if ev_ContentType event = ''text''
                       then acc \<lparr> textContent := textContent acc @ ev_TextDelta event \<rparr>
                     else if ev_ContentType event = ''thinking''
                       then acc \<lparr> thinkingContent := thinkingContent acc @ ev_ThinkingDelta event \<rparr>
                     else acc);
             streamMsg = stream_message clk (state w) acc1
         in event_loop clk config closing rest acc1
              (publish (MessageUpdateEvent streamMsg event)
                 (on_state (SetStreamMessage streamMsg) w)))
      else if ev_Type event = ''tool_call'' then
        (case ev_ToolCall event of
           Some tc \<Rightarrow>
             event_loop clk config closing rest (acc \<lparr> toolCalls := toolCalls acc @ [tc] \<rparr>)
               (on_state (AddPendingToolCall (tc_ID tc)) w)
         | None \<Rightarrow> event_loop clk config closing rest acc w)
      else if ev_Type event = ''usage'' then
        (case ev_Usage event of
           Some u \<Rightarrow> event_loop clk config closing rest (acc \<lparr> usage := u \<rparr>) w
         | None \<Rightarrow> event_loop clk config closing rest acc w)
      else if ev_Type event = ''error'' then
        (StreamFailed (''stream error: '' @ ev_Error event), rest, acc, w)
      else event_loop clk config closing rest acc w)"

text \<open>The pushes on the two queues that happen in the rest of the turn, once the loop no
  longer reads the stream.\<close>

fun later_pushes :: "item list \<Rightarrow> world \<Rightarrow> world" where
  "later_pushes [] w = w"
| "later_pushes (Steers m # rest) w = later_pushes rest (w \<lparr> SteeringQueue := SteeringQueue w @ [m] \<rparr>)"
| "later_pushes (FollowsUp m # rest) w = later_pushes rest (w \<lparr> FollowUpQueue := FollowUpQueue w @ [m] \<rparr>)"
| "later_pushes (Arrives event # rest) w = later_pushes rest w"

text \<open>
  \<open>executeToolCall\<close> (tool lookup, permission check, the tool's own code) is a parameter
  of the loop: for each call, the error or the tool result message it returns.
  \<open>executeToolCalls\<close> runs the calls and collects the results in the order of the calls.
\<close>

fun tool_calls_of :: "Content list \<Rightarrow> ToolCall list" where
  "tool_calls_of [] = []"
| "tool_calls_of (ToolCallContent tc # cs) = tc # tool_calls_of cs"
| "tool_calls_of (c # cs) = tool_calls_of cs"

definition executeToolCalls ::
  "loop_clock \<Rightarrow> (ToolCall \<Rightarrow> string + ToolResultMessage) \<Rightarrow> AgentLoopConfig \<Rightarrow> ToolCall list
     \<Rightarrow> world \<Rightarrow> (string + ToolResultMessage list) \<times> world" where
  "executeToolCalls clk executeToolCall config calls w =
     (if int (length calls) > MaxToolCalls config then
        (Inl (''too many tool calls: '' @ format_int (int (length calls)) @ '' (max: ''
              @ format_int (MaxToolCalls config) @ '')''), w)
      else
        (Inr (map (\<lambda>toolCall.
                     case executeToolCall toolCall of
                       Inl e \<Rightarrow> NewToolResultMessage (unix_milli clk) (tc_ID toolCall) (tc_Name toolCall)
                                  [NewTextContent (''Error: '' @ e)] True
                     | Inr result \<Rightarrow> result) calls),
         fold (\<lambda>toolCall. on_state (RemovePendingToolCall (tc_ID toolCall))) calls w))"

text \<open>
  \<open>processStream\<close> returns \<open>(assistantMessage, toolResults, err)\<close>; the result is
  \<open>None\<close> when it never returns.  The deferred \<open>SetIsStreaming(false)\<close> runs at every
  return.
\<close>

definition processStream ::
  "loop_clock \<Rightarrow> (ToolCall \<Rightarrow> string + ToolResultMessage) \<Rightarrow> AgentLoopConfig \<Rightarrow> turn_script
     \<Rightarrow> world \<Rightarrow> ((AgentMessage \<times> ToolResultMessage list \<times> string option) \<times> world) option" where
  "processStream clk executeToolCall config script w0 =
     (case event_loop clk config (closes script) (items script) no_accum
             (on_state (SetIsStreaming True) w0) of
        (Starved, _, _, _) \<Rightarrow> None
      | (StreamFailed e, rest, acc, w1) \<Rightarrow>
          Some ((no_AgentMessage, [], Some e), on_state (SetIsStreaming False) (later_pushes rest w1))
      | (_, rest, acc, w1) \<Rightarrow>
          (let w2 = later_pushes rest w1
           in case stream_error script of
                Some e \<Rightarrow>
                  Some ((no_AgentMessage, [], Some (''stream error: '' @ e)),
                        on_state (SetIsStreaming False) w2)
              | None \<Rightarrow>
                  (case stream_result script of
                     None \<Rightarrow> None
                   | Some result \<Rightarrow>
                       (let assistantMessage =
                              \<lparr> msg_Message = Some (Assistant result),
                                msg_ID = ''msg-'' @ format_int (sint (unix_nano clk)),
                                msg_CreatedAt = unix_milli clk \<rparr>;
                            finalToolCalls = tool_calls_of (as_Content result);
                            w3 = fold (\<lambda>tc. on_state (AddPendingToolCall (tc_ID tc))) finalToolCalls w2;
                            calls = (if finalToolCalls \<noteq> [] then finalToolCalls else toolCalls acc)
                        in if calls \<noteq> [] then
                             (case executeToolCalls clk executeToolCall config calls w3 of
                                (Inl e, w4) \<Rightarrow>
                                  Some ((assistantMessage, [], Some (''tool execution failed: '' @ e)),
                                        on_state (SetIsStreaming False) w4)
                              | (Inr results, w4) \<Rightarrow>
                                  Some ((assistantMessage, results, None),
                                        on_state (SetIsStreaming False) w4))
                           else Some ((assistantMessage, [], None),
                                      on_state (SetIsStreaming False) w3)))))"

text \<open>
  The environment of a run: the script of each turn, given the number of the turn and the
  history sent to the provider; whether the context is found cancelled at the start of a
  turn, and with which error; the outcome of each tool call; the clock.
\<close>

record environment =
  script_of :: "nat \<Rightarrow> AgentMessage list \<Rightarrow> turn_script"
  ctx_err :: "nat \<Rightarrow> string option"
  tool_outcome :: "ToolCall \<Rightarrow> string + ToolResultMessage"
  clock_of :: loop_clock

definition tool_result_message :: "loop_clock \<Rightarrow> ToolResultMessage \<Rightarrow> AgentMessage" where
  "tool_result_message clk toolResult =
     \<lparr> msg_Message = Some (ToolResult toolResult),
       msg_ID = ''tool-'' @ format_int (sint (unix_nano clk)),
       msg_CreatedAt = unix_milli clk \<rparr>"

text \<open>The outer loop of \<open>AgentLoop\<close>, from the turn numbered \<open>turnCount\<close> on.  The
  result is the error returned (\<open>None\<close> for nil) and the world, or \<open>None\<close> when the loop
  never returns.\<close>

function turns ::
  "environment \<Rightarrow> AgentLoopConfig \<Rightarrow> int \<Rightarrow> world \<Rightarrow> (string option \<times> world) option" where
  "turns env config turnCount w =
     (case ctx_err env (nat turnCount) of
        Some e \<Rightarrow> Some (Some e, w)
      | None \<Rightarrow>
          if turnCount \<ge> MaxTurns config then
            Some (Some (''max turns ('' @ format_int (MaxTurns config) @ '') exceeded''), w)
          else
            (let w1 = publish TurnStartEvent w;
                 script = script_of env (nat turnCount) (Messages (state w1))
             in case processStream (clock_of env) (tool_outcome env) config script w1 of
                  None \<Rightarrow> None
                | Some ((assistantMessage, toolResults, Some e), w2) \<Rightarrow>
                    Some (Some (''stream processing failed: '' @ e),
                          publish (ErrorEvent e ''stream processing'') (on_state (SetError e) w2))
                | Some ((assistantMessage, toolResults, None), w2) \<Rightarrow>
                    (let w3 = on_state (AddMessage assistantMessage) w2;
                         w4 = fold (\<lambda>r. on_state (AddMessage (tool_result_message (clock_of env) r)))
                                toolResults w3;
                         w5 = publish (TurnEndEvent assistantMessage toolResults) w4;
                         w6 = (fold (\<lambda>m. on_state (AddMessage m)) (FollowUpQueue w5) w5)
                                \<lparr> FollowUpQueue := [] \<rparr>;
                         shouldContinue = (FollowUpQueue w5 \<noteq> [] \<or> toolResults \<noteq> [])
                     in if shouldContinue then turns env config (turnCount + 1) w6
                        else Some (None, w6))))"
  by pat_completeness auto
termination
  by (relation "measure (\<lambda>(env, config, turnCount, w). nat (MaxTurns config - turnCount))") auto

declare turns.simps [simp del]

definition AgentLoop ::
  "environment \<Rightarrow> AgentMessage list \<Rightarrow> AgentLoopConfig \<Rightarrow> world \<Rightarrow> (string option \<times> world) option" where
  "AgentLoop env prompts config w0 =
     (let w1 = publish AgentStartEvent w0;
          w2 = fold (\<lambda>prompt w. publish (PromptAddedEvent prompt) (on_state (AddMessage prompt) w))
                 prompts w1
      in case turns env config 0 w2 of
           None \<Rightarrow> None
         | Some (e, w3) \<Rightarrow> Some (e, publish (AgentEndEvent (Messages (state w3))) w3))"

subsection \<open>What a turn reads and where history comes from\<close>

text \<open>The events that the event loop processes, given the steering queue at its start: the
  events up to the first one that finds the steering queue non-empty (with steering
  enabled), or up to and including the first error event.\<close>

fun processed :: "AgentLoopConfig \<Rightarrow> AgentMessage list \<Rightarrow> item list \<Rightarrow> AssistantMessageEvent list" where
  "processed config queue [] = []"
| "processed config queue (Steers m # rest) = processed config (queue @ [m]) rest"
| "processed config queue (FollowsUp m # rest) = processed config queue rest"
| "processed config queue (Arrives event # rest) =
     (if EnableSteering config \<and> queue \<noteq> [] then []
      else if ev_Type event = ''error'' then [event]
      else event # processed config queue rest)"

definition is_content_delta :: "AssistantMessageEvent \<Rightarrow> bool" where
  "is_content_delta event = (ev_Type event = ''content_delta'')"

fun steers_of :: "item list \<Rightarrow> AgentMessage list" where
  "steers_of [] = []"
| "steers_of (Steers m # rest) = m # steers_of rest"
| "steers_of (i # rest) = steers_of rest"

fun follow_ups_of :: "item list \<Rightarrow> AgentMessage list" where
  "follow_ups_of [] = []"
| "follow_ups_of (FollowsUp m # rest) = m # follow_ups_of rest"
| "follow_ups_of (i # rest) = follow_ups_of rest"

fun has_event :: "item list \<Rightarrow> bool" where
  "has_event [] = False"
| "has_event (Arrives event # rest) = True"
| "has_event (i # rest) = has_event rest"

text \<open>The messages that the loop itself wraps: the result of a stream and the result of a
  tool call.\<close>

definition made_by_loop :: "loop_clock \<Rightarrow> AgentMessage \<Rightarrow> bool" where
  "made_by_loop clk m =
     ((\<exists>result. msg_Message m = Some (Assistant result)
          \<and> msg_ID m = ''msg-'' @ format_int (sint (unix_nano clk)))
      \<or> (\<exists>toolResult. m = tool_result_message clk toolResult))"

text \<open>The follow-up messages that the environment pushes in any turn.\<close>

definition pushed_follow_ups :: "environment \<Rightarrow> AgentMessage set" where
  "pushed_follow_ups env = {m. \<exists>n history. m \<in> set (follow_ups_of (items (script_of env n history)))}"

subsection \<open>An example run\<close>

definition example_model :: Model where
  "example_model = \<lparr> model_ID = ''gpt-4'', model_Provider = ''openai'', model_Name = ''GPT-4'' \<rparr>"

definition example_world :: world where
  "example_world =
     \<lparr> state = NewAgentState ''You are helpful.'' example_model [],
       SteeringQueue = [], FollowUpQueue = [], published = [] \<rparr>"

definition example_loop_clock :: loop_clock where
  "example_loop_clock = \<lparr> unix_nano = 0, unix_milli = 0 \<rparr>"

definition example_config :: AgentLoopConfig where
  "example_config =
     \<lparr> MaxTurns = 100, MaxToolCalls = 50, EnableSteering = True, EnableCompaction = False \<rparr>"

definition example_prompt :: AgentMessage where
  "example_prompt =
     \<lparr> msg_Message = Some (User (NewUserTextMessage 0 ''Say hi'')), msg_ID = ''msg-1'',
       msg_CreatedAt = 0 \<rparr>"

definition example_steer :: AgentMessage where
  "example_steer =
     \<lparr> msg_Message = Some (User (NewUserTextMessage 0 ''stop and say done'')),
       msg_ID = ''steer-2'', msg_CreatedAt = 0 \<rparr>"

definition example_reply :: AssistantMessage where
  "example_reply =
     NewAssistantMessage 0 [NewTextContent ''Hi''] ''openai'' ''openai'' ''gpt-4'' no_Usage ''end_turn''"

text \<open>A stream of two text deltas and an end event, with its result.\<close>

definition example_script :: turn_script where
  "example_script =
     \<lparr> items = [Arrives (NewTextDeltaEvent ''H''), Arrives (NewTextDeltaEvent ''i''),
                Arrives (NewEndEvent ''end_turn'')],
       closes = True, stream_error = None, stream_result = Some example_reply \<rparr>"

text \<open>The same stream, with a steering message pushed after the first delta.\<close>

definition example_steered_script :: turn_script where
  "example_steered_script =
     \<lparr> items = [Arrives (NewTextDeltaEvent ''H''), Steers example_steer,
                Arrives (NewTextDeltaEvent ''i''), Arrives (NewEndEvent ''end_turn'')],
       closes = True, stream_error = None, stream_result = Some example_reply \<rparr>"

definition example_environment :: "turn_script \<Rightarrow> environment" where
  "example_environment script =
     \<lparr> script_of = (\<lambda>n history. script), ctx_err = (\<lambda>n. None),
       tool_outcome = (\<lambda>toolCall. Inl ''tool not found''), clock_of = example_loop_clock \<rparr>"

text \<open>One pass through the body of the event loop for an event that neither interrupts
  nor fails the stream: the new accumulators and the new world.\<close>

definition handle_event :: "loop_clock \<Rightarrow> AssistantMessageEvent \<Rightarrow> accum \<Rightarrow> world \<Rightarrow> accum \<times> world" where
  "handle_event clk event acc w =
     (if ev_Type event = ''content_delta'' then
        (let acc1 = (if ev_ContentType event = ''text''
                       then acc \<lparr> textContent := textContent acc @ ev_TextDelta event \<rparr>
                     else if ev_ContentType event = ''thinking''
                       then acc \<lparr> thinkingContent := thinkingContent acc @ ev_ThinkingDelta event \<rparr>
                     else acc);
             streamMsg = stream_message clk (state w) acc1
         in (acc1, publish (MessageUpdateEvent streamMsg event)
                     (on_state (SetStreamMessage streamMsg) w)))
      else if ev_Type event = ''tool_call'' then
        (case ev_ToolCall event of
           Some tc \<Rightarrow> (acc \<lparr> toolCalls := toolCalls acc @ [tc] \<rparr>,
                       on_state (AddPendingToolCall (tc_ID tc)) w)
         | None \<Rightarrow> (acc, w))
      else if ev_Type event = ''usage'' then
        (case ev_Usage event of
           Some u \<Rightarrow> (acc \<lparr> usage := u \<rparr>, w)
         | None \<Rightarrow> (acc, w))
      else (acc, w))"

definition is_stream_message :: "loop_clock \<Rightarrow> AgentMessage \<Rightarrow> bool" where
  "is_stream_message clk m = (\<exists>s a. m = stream_message clk s a)"

text \<open>A run of two turns: the first stream is steered and its result asks for a tool; the
  second stream is the plain one.\<close>

definition example_tool_reply :: AssistantMessage where
  "example_tool_reply =
     NewAssistantMessage 0 [ToolCallContent (NewToolCall ''c1'' ''read'' (Some [(''file_path'', AnyString ''foo.txt'')]))]
       ''openai'' ''openai'' ''gpt-4'' no_Usage ''tool_use''"

definition example_two_turns :: environment where
  "example_two_turns =
     \<lparr> script_of = (\<lambda>n history. if n = 0 then example_steered_script \<lparr> stream_result := Some example_tool_reply \<rparr>
                                 else example_script),
       ctx_err = (\<lambda>n. None),
       tool_outcome = (\<lambda>toolCall. Inr (NewToolResultMessage 0 (tc_ID toolCall) (tc_Name toolCall)
                                           [NewTextContent ''BODY''] False)),
       clock_of = example_loop_clock \<rparr>"

text \<open>The world at the end of a turn whose stream was processed without error: the
  assistant message, the tool results and the queued follow-up messages are in the history,
  the follow-up queue is empty.\<close>

definition end_of_turn ::
  "loop_clock \<Rightarrow> AgentMessage \<Rightarrow> ToolResultMessage list \<Rightarrow> world \<Rightarrow> world" where
  "end_of_turn clk assistantMessage toolResults w2 =
     (let w3 = on_state (AddMessage assistantMessage) w2;
          w4 = fold (\<lambda>r. on_state (AddMessage (tool_result_message clk r))) toolResults w3;
          w5 = publish (TurnEndEvent assistantMessage toolResults) w4
      in (fold (\<lambda>m. on_state (AddMessage m)) (FollowUpQueue w5) w5) \<lparr> FollowUpQueue := [] \<rparr>)"

section \<open>Messages as JSON\<close>

subsection \<open>Values of type \<open>any\<close>\<close>








subsection \<open>Marshalling\<close>









subsection \<open>Unmarshalling\<close>























subsection \<open>Messages that come back as they were\<close>









section \<open>Properties of the string primitives\<close>

lemma HasPrefix_iff_prefix: "HasPrefix s pre \<longleftrightarrow> prefix pre s"
proof
  assume "HasPrefix s pre"
  then have "take (length pre) s = pre" by (simp add: HasPrefix_def)
  then have "s = pre @ drop (length pre) s" by (metis append_take_drop_id)
  then show "prefix pre s" by (metis prefixI)
next
  assume "prefix pre s"
  then obtain t where "s = pre @ t" by (auto simp: prefix_def)
  then show "HasPrefix s pre" by (simp add: HasPrefix_def)
qed

lemma Contains_iff_sublist: "Contains s sub \<longleftrightarrow> sublist sub s"
  by (induction s) (auto simp: HasPrefix_iff_prefix sublist_Cons_right)

lemma Contains_star: "Contains p ''*'' \<longleftrightarrow> CHR ''*'' \<in> set p"
  by (induction p) (auto simp: HasPrefix_def)

lemma Split_nonempty: "Split s sep \<noteq> []"
  by (induction s) (auto split: list.splits)

lemma hd_Split: "hd (Split s sep) = takeWhile (\<lambda>c. c \<noteq> sep) s"
  by (induction s) (auto split: list.splits simp: Split_nonempty)

lemma dropWhile_head: "dropWhile P s = c # cs \<Longrightarrow> \<not> P c"
  by (metis hd_dropWhile list.distinct(1) list.sel(1))

lemma Fields_first_token:
  "(case Fields s of [] \<Rightarrow> None | t # _ \<Rightarrow> Some t) = first_token s"
proof (cases "dropWhile isSpace s")
  case Nil
  have "Fields s = []"
    by (subst Fields.simps) (simp only: Nil list.case)
  moreover have "first_token s = None"
    by (simp only: first_token_def Nil list.case)
  ultimately show ?thesis by simp
next
  case (Cons c cs)
  then have c: "\<not> isSpace c" by (rule dropWhile_head)
  have "Fields s = (c # takeWhile (\<lambda>x. \<not> isSpace x) cs) # Fields (dropWhile (\<lambda>x. \<not> isSpace x) cs)"
    by (subst Fields.simps) (simp only: Cons list.case)
  moreover have "first_token s = Some (c # takeWhile (\<lambda>x. \<not> isSpace x) cs)"
    using c by (simp add: first_token_def Cons)
  ultimately show ?thesis by simp
qed

section \<open>Permission decisions\<close>

lemma matchPattern_iff: "matchPattern pat rule \<longleftrightarrow> spec_rule_matches rule pat"
  by (auto simp: matchPattern_def spec_rule_matches_def Contains_star hd_Split HasPrefix_iff_prefix)

lemma any_rule_matches_iff:
  "any_rule_matches pat rules \<longleftrightarrow> (\<exists>rule \<in> set rules. spec_rule_matches rule pat)"
  by (induction rules) (auto simp: matchPattern_iff)

text \<open>
  C1.  \<open>CheckPermission\<close> computes the generated pattern of the request and decides in
  this order: a matching deny rule gives auto-deny \<open>(allowed = False, needAsk = False)\<close>;
  otherwise a matching allow rule gives auto-allow \<open>(True, False)\<close>; otherwise the user
  must be asked \<open>(False, True)\<close>.  A rule matches a request pattern iff the two are
  equal, or the rule contains a star and its text before the first star is a prefix of the
  request pattern.
\<close>

theorem CheckPermission_decision_order:
  "CheckPermission pm req =
     (if \<exists>d \<in> set (denyPatterns pm). spec_rule_matches d (generatePattern req)
        then (False, False, None)
      else if \<exists>a \<in> set (allowPatterns pm). spec_rule_matches a (generatePattern req)
        then (True, False, None)
      else (False, True, None))
   \<and> matchPattern pat rule = spec_rule_matches rule pat"
  by (simp add: CheckPermission_def any_rule_matches_iff matchPattern_iff)

lemmas string_eval =
  ToLower_def ToUpper_def lower_byte_def upper_byte_def upper_letters_def lower_letters_def
  HasPrefix_def isSpace_def Fields.simps string_param_def map_index_def capitalize_def

theorem CheckPermission_decision_order_witness:
  "CheckPermission example_manager
     (example_request ''Bash'' ''git status'' (Some [(''command'', AnyString ''git status'')]))
     = (True, False, None)
   \<and> CheckPermission example_manager
     (example_request ''Bash'' ''rm -r x'' (Some [(''command'', AnyString ''rm -r x'')]))
     = (False, False, None)
   \<and> CheckPermission example_manager
     (example_request ''Bash'' ''make'' (Some [(''command'', AnyString ''make'')]))
     = (False, True, None)
   \<and> matchPattern ''Bash(git:*)'' ''Bash(*)''"
  using CheckPermission_decision_order [of example_manager
      "example_request ''Bash'' ''git status'' (Some [(''command'', AnyString ''git status'')])"
      "''Bash(git:*)''" "''Bash(*)''"]
    CheckPermission_decision_order [of example_manager
      "example_request ''Bash'' ''rm -r x'' (Some [(''command'', AnyString ''rm -r x'')])"]
    CheckPermission_decision_order [of example_manager
      "example_request ''Bash'' ''make'' (Some [(''command'', AnyString ''make'')])"]
  by (simp add: example_manager_def example_request_def generatePattern_def
      spec_rule_matches_def string_eval)

section \<open>Generated patterns\<close>

lemma capitalize_write: "capitalize ''write'' = ''Write''"
  by (simp add: capitalize_def ToUpper_def upper_byte_def upper_letters_def lower_letters_def)

lemma capitalize_edit: "capitalize ''edit'' = ''Edit''"
  by (simp add: capitalize_def ToUpper_def upper_byte_def upper_letters_def lower_letters_def)

lemma IsAbs_iff: "IsAbs path \<longleftrightarrow> prefix ''/'' path"
  by (simp add: IsAbs_def HasPrefix_iff_prefix)

lemma bash_branch:
  "(case string_param ps ''command'' of
      Some cmd \<Rightarrow> (case Fields cmd of cmdName # _ \<Rightarrow> ''Bash('' @ cmdName @ '':*)'' | [] \<Rightarrow> ''Bash(*)'')
    | None \<Rightarrow> ''Bash(*)'') =
   (case Option.bind (string_param ps ''command'') first_token of
      Some tok \<Rightarrow> ''Bash('' @ tok @ '':*)''
    | None \<Rightarrow> ''Bash(*)'')"
proof (cases "string_param ps ''command''")
  case None
  then show ?thesis by simp
next
  case (Some cmd)
  show ?thesis
    by (cases "Fields cmd") (simp_all add: Some Fields_first_token [symmetric])
qed

text \<open>
  C5 (as amended).  The pattern generated for a request, by the lower-cased tool name:
  for \<open>bash\<close> with a string \<open>params.command\<close> that has a first token delimited by white
  space, \<open>Bash(<token>:*)\<close>; for \<open>bash\<close> with no command, a command that is not a
  string, or a blank command, \<open>Bash(*)\<close>; for \<open>read\<close>, \<open>Read(*)\<close>; for \<open>write\<close> or
  \<open>edit\<close> with a resource that begins with a slash, \<open><Name>(<parent directory>/*)\<close>; for
  \<open>write\<close> or \<open>edit\<close> with any other resource, and for every other tool, the lower-cased
  tool name with its first letter in upper case, followed by \<open>(*)\<close>.
\<close>

theorem generatePattern_cases: "generatePattern req = pattern_spec req"
  unfolding generatePattern_def pattern_spec_def Let_def bash_branch IsAbs_iff
  by (simp add: capitalize_write capitalize_edit)

theorem generatePattern_cases_witness:
  "generatePattern (example_request ''BASH'' [] (Some [(''command'', AnyString '' go  build ./...'')]))
     = ''Bash(go:*)''
   \<and> generatePattern (example_request ''Read'' ''/etc/hosts'' None) = ''Read(*)''
   \<and> generatePattern (example_request ''Write'' ''/w/src/main.go'' None) = ''Write(/w/src/*)''
   \<and> generatePattern (example_request ''Edit'' ''main.go'' None) = ''Edit(*)''
   \<and> generatePattern (example_request ''webFetch'' [] None) = ''Webfetch(*)''"
  using generatePattern_cases
    [of "example_request ''BASH'' [] (Some [(''command'', AnyString '' go  build ./...'')])"]
    generatePattern_cases [of "example_request ''Read'' ''/etc/hosts'' None"]
    generatePattern_cases [of "example_request ''Write'' ''/w/src/main.go'' None"]
    generatePattern_cases [of "example_request ''Edit'' ''main.go'' None"]
    generatePattern_cases [of "example_request ''webFetch'' [] None"]
  by (simp add: example_request_def pattern_spec_def first_token_def Dir_def Clean_def string_eval)

text \<open>
  The claim as first stated promises \<open>Bash(<first token>:*)\<close> for every Bash request.  A
  Bash request whose command is blank gets \<open>Bash(*)\<close>, which does not end in \<open>:*)\<close>.
\<close>

theorem generatePattern_blank_command_counterexample:
  "generatePattern (example_request ''bash'' '' '' (Some [(''command'', AnyString '' '')])) = ''Bash(*)''
   \<and> \<not> suffix '':*)''
        (generatePattern (example_request ''bash'' '' '' (Some [(''command'', AnyString '' '')])))"
  by (simp add: example_request_def generatePattern_def string_eval suffix_def)

section \<open>Risk levels\<close>

lemma path_loop_iff: "path_loop resource paths \<longleftrightarrow> (\<exists>p \<in> set paths. sublist p resource)"
proof (induction paths)
  case Nil
  show ?case by simp
next
  case (Cons p ps)
  have "HasPrefix resource p \<Longrightarrow> sublist p resource"
    by (simp add: HasPrefix_iff_prefix)
  with Cons show ?case
    by (auto simp: Contains_iff_sublist)
qed

lemma fragment_loop_iff:
  "fragment_loop cmdLower frags \<longleftrightarrow> (\<exists>f \<in> set frags. sublist f cmdLower)"
  by (induction frags) (auto simp: Contains_iff_sublist)

lemma safe_loop_iff: "safe_loop firstCmd cmds \<longleftrightarrow> firstCmd \<in> set cmds"
  by (induction cmds) auto

lemma first_word_safe:
  "(case Fields cmd of firstCmd # _ \<Rightarrow> if safe_loop firstCmd cmds then ''safe'' else ''medium''
    | [] \<Rightarrow> ''medium'') =
   (if first_token cmd \<in> Some ` set cmds then ''safe'' else ''medium'')"
  by (cases "Fields cmd") (auto simp: safe_loop_iff Fields_first_token [symmetric])

text \<open>
  C3 (as amended).  \<open>AnalyzeRiskLevel\<close> returns \<open>safe\<close> for the Read tool; otherwise
  \<open>dangerous\<close> when the resource contains, at any position, one of the listed paths;
  otherwise, for Bash with a string command, \<open>dangerous\<close> when the lower-cased command
  contains one of the listed fragments, \<open>safe\<close> when its first token is one of the listed
  read-only commands, and \<open>medium\<close> if neither; \<open>medium\<close> for Bash without a string
  command and for Write and Edit; \<open>safe\<close> for every other tool.  The tool name is
  compared in lower case throughout.
\<close>

theorem AnalyzeRiskLevel_cases: "AnalyzeRiskLevel req = risk_spec req"
  unfolding AnalyzeRiskLevel_def risk_spec_def Let_def path_loop_iff fragment_loop_iff
    first_word_safe
  by (simp split: option.splits)

lemmas risk_eval =
  example_request_def AnalyzeRiskLevel_def dangerousPaths_def dangerousCommands_def
  safeCommands_def sublist_code prefix_code

theorem AnalyzeRiskLevel_cases_witness:
  "AnalyzeRiskLevel (example_request ''Read'' ''/etc/passwd'' None) = ''safe''
   \<and> AnalyzeRiskLevel (example_request ''write'' ''/etc/passwd'' None) = ''dangerous''
   \<and> AnalyzeRiskLevel
       (example_request ''bash'' [] (Some [(''command'', AnyString ''Sudo ls'')])) = ''dangerous''
   \<and> AnalyzeRiskLevel
       (example_request ''bash'' [] (Some [(''command'', AnyString ''ls -l'')])) = ''safe''
   \<and> AnalyzeRiskLevel
       (example_request ''Bash'' ''make'' (Some [(''command'', AnyString ''make'')])) = ''medium''
   \<and> AnalyzeRiskLevel (example_request ''Edit'' ''/w/a.go'' None) = ''medium''
   \<and> AnalyzeRiskLevel (example_request ''Glob'' [] None) = ''safe''"
  using AnalyzeRiskLevel_cases [of "example_request ''Read'' ''/etc/passwd'' None"]
    AnalyzeRiskLevel_cases [of "example_request ''write'' ''/etc/passwd'' None"]
    AnalyzeRiskLevel_cases
      [of "example_request ''bash'' [] (Some [(''command'', AnyString ''Sudo ls'')])"]
  by (simp add: risk_eval string_eval)

text \<open>
  The claim as first stated makes a request dangerous exactly when its resource begins with
  a listed path or its Bash command contains a listed fragment.  A Write request on a file
  under \<open>/home\<close> whose path merely contains \<open>/.ssh\<close> is dangerous.
\<close>

theorem AnalyzeRiskLevel_contains_counterexample:
  "AnalyzeRiskLevel (example_request ''Write'' ''/home/u/.ssh/config'' None) = ''dangerous''
   \<and> \<not> begins_with_any ''/home/u/.ssh/config'' dangerousPaths"
  by (simp add: risk_eval string_eval begins_with_any_def)


section \<open>The event bus\<close>
lemma publish_loop_deliver:
  assumes "list_all (\<lambda>l. l < length cs \<and> \<not> chan_closed (cs ! l)) ls" and "distinct ls"
  shows "\<exists>cs'. publish_loop e ls cs = Inr cs' \<and> length cs' = length cs
           \<and> (\<forall>i < length cs. cs' ! i = (if i \<in> set ls then deliver e (cs ! i) else cs ! i))"
  using assms
proof (induction ls arbitrary: cs)
  case Nil
  then show ?case by simp
next
  case (Cons l ls)
  from Cons.prems have l: "l < length cs" "\<not> chan_closed (cs ! l)" "l \<notin> set ls" "distinct ls"
    and rest: "list_all (\<lambda>k. k < length cs \<and> \<not> chan_closed (cs ! k)) ls"
    by simp_all
  have sent: "try_send e (cs ! l) = Inr (deliver e (cs ! l))"
    using l by (simp add: try_send_def deliver_def)
  let ?cs = "cs[l := deliver e (cs ! l)]"
  have "list_all (\<lambda>k. k < length ?cs \<and> \<not> chan_closed (?cs ! k)) ls"
    using rest l by (auto simp: list_all_iff nth_list_update)
  from Cons.IH [OF this l(4)] obtain cs' where
    cs': "publish_loop e ls ?cs = Inr cs'" "length cs' = length ?cs"
      "\<forall>i < length ?cs. cs' ! i = (if i \<in> set ls then deliver e (?cs ! i) else ?cs ! i)"
    by blast
  have "\<forall>i < length cs. cs' ! i = (if i \<in> set (l # ls) then deliver e (cs ! i) else cs ! i)"
    using cs'(3) l by (auto simp: nth_list_update)
  with cs'(1,2) sent show ?case by simp
qed

lemma close_loop_closes:
  assumes "list_all (\<lambda>l. l < length cs \<and> \<not> chan_closed (cs ! l)) ls" and "distinct ls"
  shows "\<exists>cs'. close_loop ls cs = Inr cs' \<and> length cs' = length cs
           \<and> (\<forall>i < length cs. cs' ! i = (if i \<in> set ls then (cs ! i) \<lparr> chan_closed := True \<rparr> else cs ! i))"
  using assms
proof (induction ls arbitrary: cs)
  case Nil
  then show ?case by simp
next
  case (Cons l ls)
  from Cons.prems have l: "l < length cs" "\<not> chan_closed (cs ! l)" "l \<notin> set ls" "distinct ls"
    and rest: "list_all (\<lambda>k. k < length cs \<and> \<not> chan_closed (cs ! k)) ls"
    by simp_all
  have closed: "close_chan (cs ! l) = Inr ((cs ! l) \<lparr> chan_closed := True \<rparr>)"
    using l by (simp add: close_chan_def)
  let ?cs = "cs[l := (cs ! l) \<lparr> chan_closed := True \<rparr>]"
  have "list_all (\<lambda>k. k < length ?cs \<and> \<not> chan_closed (?cs ! k)) ls"
    using rest l by (auto simp: list_all_iff nth_list_update)
  from Cons.IH [OF this l(4)] obtain cs' where
    cs': "close_loop ls ?cs = Inr cs'" "length cs' = length ?cs"
      "\<forall>i < length ?cs. cs' ! i = (if i \<in> set ls then (?cs ! i) \<lparr> chan_closed := True \<rparr> else ?cs ! i)"
    by blast
  have "\<forall>i < length cs. cs' ! i = (if i \<in> set (l # ls) then (cs ! i) \<lparr> chan_closed := True \<rparr> else cs ! i)"
    using cs'(3) l by (auto simp: nth_list_update)
  with cs'(1,2) closed show ?case by simp
qed

lemma bus_inv_open:
  assumes "bus_inv bus" and "\<not> bus_closed bus"
  shows "list_all (\<lambda>l. l < length (chans bus) \<and> \<not> chan_closed (chans bus ! l)) (listeners bus)"
    and "distinct (listeners bus)"
  using assms by (auto simp: bus_inv_def list_all_iff)

text \<open>
  C6.  \<open>Publish\<close> never blocks and never panics: on an open bus it performs one
  non-blocking send for each current subscriber, so a subscriber whose buffer is full
  keeps its queue as it is (the event is dropped for that subscriber only) while every
  subscriber whose buffer has room gets the event appended to its queue; channels that are
  not subscribers are untouched.  After \<open>Close\<close>, \<open>Publish\<close> changes nothing.
\<close>

theorem Publish_never_blocks:
  assumes "bus_inv bus"
  shows "(\<exists>bus'. Publish event bus = Inr bus'
            \<and> listeners bus' = listeners bus \<and> bus_closed bus' = bus_closed bus
            \<and> length (chans bus') = length (chans bus)
            \<and> (\<forall>i < length (chans bus).
                  chans bus' ! i = (if i \<in> set (listeners bus) then deliver event (chans bus ! i)
                                    else chans bus ! i)))
       \<and> (\<exists>shut. Close bus = Inr shut \<and> IsClosed shut \<and> Publish event shut = Inr shut)"
proof
  show "\<exists>bus'. Publish event bus = Inr bus'
            \<and> listeners bus' = listeners bus \<and> bus_closed bus' = bus_closed bus
            \<and> length (chans bus') = length (chans bus)
            \<and> (\<forall>i < length (chans bus).
                  chans bus' ! i = (if i \<in> set (listeners bus) then deliver event (chans bus ! i)
                                    else chans bus ! i))"
  proof (cases "bus_closed bus")
    case True
    with assms have "listeners bus = []" by (simp add: bus_inv_def)
    with True show ?thesis by (simp add: Publish_def)
  next
    case False
    from publish_loop_deliver [OF bus_inv_open [OF assms False], of event]
    obtain cs' where "publish_loop event (listeners bus) (chans bus) = Inr cs'"
      "length cs' = length (chans bus)"
      "\<forall>i < length (chans bus). cs' ! i =
          (if i \<in> set (listeners bus) then deliver event (chans bus ! i) else chans bus ! i)"
      by blast
    with False show ?thesis by (simp add: Publish_def)
  qed
next
  show "\<exists>shut. Close bus = Inr shut \<and> IsClosed shut \<and> Publish event shut = Inr shut"
  proof (cases "bus_closed bus")
    case True
    then show ?thesis by (simp add: Close_def IsClosed_def Publish_def)
  next
    case False
    from close_loop_closes [OF bus_inv_open [OF assms False]]
    obtain cs' where "close_loop (listeners bus) (chans bus) = Inr cs'" by blast
    with False show ?thesis by (simp add: Close_def IsClosed_def Publish_def)
  qed
qed


lemma bus_inv_New: "bus_inv NewEventBus"
  by (simp add: bus_inv_def NewEventBus_def)

lemma bus_inv_Subscribe:
  assumes "bus_inv bus" and "Subscribe n bus = Inr (a, bus')"
  shows "bus_inv bus'"
proof (cases "bus_closed bus")
  case True
  with assms show ?thesis
    by (auto simp: Subscribe_def make_chan_def bus_inv_def)
next
  case False
  with assms(2) have n: "\<not> n < 0"
    and bus': "bus' = bus \<lparr> chans := chans bus @ [\<lparr> buf = [], cap = nat n, chan_closed = False \<rparr>],
                          listeners := listeners bus @ [length (chans bus)] \<rparr>"
    by (auto simp: Subscribe_def make_chan_def split: if_splits)
  from assms(1) False have old: "\<forall>l \<in> set (listeners bus). l < length (chans bus) \<and> \<not> chan_closed (chans bus ! l)"
    and d: "distinct (listeners bus)"
    by (auto simp: bus_inv_def list_all_iff)
  from old have "length (chans bus) \<notin> set (listeners bus)" by auto
  with old d False show ?thesis
    unfolding bus' bus_inv_def by (auto simp: list_all_iff nth_append)
qed

lemma bus_inv_Publish:
  assumes "bus_inv bus" and "Publish event bus = Inr bus'"
  shows "bus_inv bus'"
proof (cases "bus_closed bus")
  case True
  with assms show ?thesis by (simp add: Publish_def)
next
  case False
  from publish_loop_deliver [OF bus_inv_open [OF assms(1) False], of event]
  obtain cs' where cs': "publish_loop event (listeners bus) (chans bus) = Inr cs'"
    "length cs' = length (chans bus)"
    "\<forall>i < length (chans bus). cs' ! i =
        (if i \<in> set (listeners bus) then deliver event (chans bus ! i) else chans bus ! i)"
    by blast
  with assms(2) False have bus': "bus' = bus \<lparr> chans := cs' \<rparr>"
    by (simp add: Publish_def)
  from bus_inv_open [OF assms(1) False] cs'(2,3) False show ?thesis
    unfolding bus' bus_inv_def by (auto simp: list_all_iff deliver_def)
qed

lemma bus_inv_Close:
  assumes "Close bus = Inr bus'" and "bus_inv bus"
  shows "bus_inv bus'"
  using assms by (auto simp: Close_def bus_inv_def split: if_splits sum.splits)

lemma bus_inv_Receive:
  assumes "bus_inv bus" and "a < length (chans bus)"
  shows "bus_inv (bus \<lparr> chans := (chans bus)[a := snd (recv (chans bus ! a))] \<rparr>)"
proof -
  have "chan_closed (snd (recv ch)) = chan_closed ch" for ch :: "'a chan"
    by (simp add: recv_def split: list.splits)
  with assms show ?thesis
    by (auto simp: bus_inv_def list_all_iff nth_list_update)
qed

lemma bus_inv_step:
  assumes "bus_inv bus" and "bus_step op bus = Inr bus'"
  shows "bus_inv bus'"
proof (cases op)
  case (DoPublish event)
  with assms show ?thesis by (auto simp: bus_step_def intro: bus_inv_Publish)
next
  case (DoSubscribe n)
  with assms show ?thesis
    by (auto simp: bus_step_def split: sum.splits intro: bus_inv_Subscribe)
next
  case DoClose
  with assms show ?thesis by (auto simp: bus_step_def intro: bus_inv_Close)
next
  case (DoReceive a)
  with assms show ?thesis
    by (auto simp: bus_step_def split: if_splits intro: bus_inv_Receive)
qed

lemma bus_inv_run: "bus_inv bus \<Longrightarrow> bus_run ops bus = Inr bus' \<Longrightarrow> bus_inv bus'"
proof (induction ops arbitrary: bus)
  case Nil
  then show ?case by simp
next
  case (Cons op ops)
  then show ?case by (auto split: sum.splits dest: bus_inv_step)
qed

lemma bus_inv_reachable: "bus_run ops NewEventBus = Inr bus \<Longrightarrow> bus_inv bus"
  by (rule bus_inv_run [OF bus_inv_New])

lemma dead_chan_step:
  assumes "dead_chan a bus" and "bus_step op bus = Inr bus'"
  shows "dead_chan a bus'"
proof (cases op)
  case (DoPublish event)
  with assms show ?thesis by (simp add: bus_step_def Publish_def dead_chan_def)
next
  case (DoSubscribe n)
  with assms show ?thesis
    by (auto simp: bus_step_def Subscribe_def make_chan_def dead_chan_def nth_append)
next
  case DoClose
  with assms show ?thesis by (simp add: bus_step_def Close_def dead_chan_def)
next
  case (DoReceive b)
  with assms show ?thesis
    by (auto simp: bus_step_def dead_chan_def recv_def nth_list_update split: if_splits)
qed

lemma dead_chan_run: "dead_chan a bus \<Longrightarrow> bus_run ops bus = Inr bus' \<Longrightarrow> dead_chan a bus'"
proof (induction ops arbitrary: bus)
  case Nil
  then show ?case by simp
next
  case (Cons op ops)
  then show ?case by (auto split: sum.splits dest: dead_chan_step)
qed

lemma closed_bus_run_total:
  "bus_closed bus \<Longrightarrow>
     \<exists>bus'. bus_run ops bus = Inr bus' \<and> bus_closed bus' \<and> listeners bus' = listeners bus"
proof (induction ops arbitrary: bus)
  case Nil
  then show ?case by simp
next
  case (Cons op ops)
  have "\<exists>b. bus_step op bus = Inr b \<and> bus_closed b \<and> listeners b = listeners bus"
    using Cons.prems
    by (cases op) (auto simp: bus_step_def Publish_def Close_def Subscribe_def make_chan_def)
  then obtain b where b: "bus_step op bus = Inr b" "bus_closed b" "listeners b = listeners bus"
    by blast
  from Cons.IH [OF b(2)] b show ?case by auto
qed

text \<open>
  C10.  \<open>Subscribe\<close> on a closed bus registers nothing: the listeners, and so
  \<open>ListenerCount\<close>, are unchanged; the channel it returns is closed and empty, so a
  receive on it reports closure at once; and whatever is done to the bus or by the
  subscribers afterwards, that channel stays empty and closed and the listener count
  stays the same.
\<close>

theorem Subscribe_after_Close:
  assumes "bus_closed bus"
  shows "\<exists>bus'. Subscribe n bus = Inr (length (chans bus), bus')
           \<and> listeners bus' = listeners bus
           \<and> ListenerCount bus' = ListenerCount bus
           \<and> fst (recv (chans bus' ! length (chans bus))) = ChannelClosed
           \<and> (\<forall>ops. \<exists>bus''. bus_run ops bus' = Inr bus''
                  \<and> ListenerCount bus'' = ListenerCount bus
                  \<and> buf (chans bus'' ! length (chans bus)) = []
                  \<and> fst (recv (chans bus'' ! length (chans bus))) = ChannelClosed)"
proof -
  let ?a = "length (chans bus)"
  let ?bus' = "bus \<lparr> chans := chans bus @ [\<lparr> buf = [], cap = 0, chan_closed = True \<rparr>] \<rparr>"
  have sub: "Subscribe n bus = Inr (?a, ?bus')"
    using assms by (simp add: Subscribe_def make_chan_def)
  have dead: "dead_chan ?a ?bus'"
    using assms by (simp add: dead_chan_def)
  have later: "\<exists>bus''. bus_run ops ?bus' = Inr bus''
                  \<and> ListenerCount bus'' = ListenerCount bus
                  \<and> buf (chans bus'' ! ?a) = []
                  \<and> fst (recv (chans bus'' ! ?a)) = ChannelClosed" for ops
  proof -
    have "bus_closed ?bus'" using assms by simp
    from closed_bus_run_total [OF this, of ops] obtain b where
      b: "bus_run ops ?bus' = Inr b" "listeners b = listeners ?bus'"
      by blast
    from dead_chan_run [OF dead b(1)] have "dead_chan ?a b" .
    with b show ?thesis
      by (simp add: dead_chan_def ListenerCount_def recv_def)
  qed
  have now: "fst (recv (chans ?bus' ! ?a)) = ChannelClosed"
    by (simp add: recv_def)
  from sub now later show ?thesis
    by (simp add: ListenerCount_def)
qed

lemma example_bus_reached:
  "bus_run [DoSubscribe 1, DoSubscribe 2, DoPublish ''agent_start''] NewEventBus = Inr example_bus"
  by (simp add: bus_step_def Subscribe_def make_chan_def Publish_def try_send_def NewEventBus_def
      example_bus_def)

theorem Publish_never_blocks_witness:
  "bus_inv example_bus
   \<and> Publish ''turn_start'' example_bus =
       Inr \<lparr> chans = [\<lparr> buf = [''agent_start''], cap = 1, chan_closed = False \<rparr>,
                      \<lparr> buf = [''agent_start'', ''turn_start''], cap = 2, chan_closed = False \<rparr>],
             listeners = [0, 1], bus_closed = False \<rparr>
   \<and> Close example_bus =
       Inr \<lparr> chans = [\<lparr> buf = [''agent_start''], cap = 1, chan_closed = True \<rparr>,
                      \<lparr> buf = [''agent_start''], cap = 2, chan_closed = True \<rparr>],
             listeners = [], bus_closed = True \<rparr>"
  using Publish_never_blocks [of example_bus "''turn_start''"]
  by (simp add: bus_inv_def example_bus_def Publish_def try_send_def Close_def close_chan_def)

theorem Subscribe_after_Close_witness:
  "bus_closed \<lparr> chans = [\<lparr> buf = [''agent_start''], cap = 1, chan_closed = True \<rparr>],
       listeners = [], bus_closed = True \<rparr>
   \<and> Subscribe 10 \<lparr> chans = [\<lparr> buf = [''agent_start''], cap = 1, chan_closed = True \<rparr>],
       listeners = [], bus_closed = True \<rparr>
     = Inr (1, \<lparr> chans = [\<lparr> buf = [''agent_start''], cap = 1, chan_closed = True \<rparr>,
                          \<lparr> buf = [], cap = 0, chan_closed = True \<rparr>],
                 listeners = [], bus_closed = True \<rparr>)"
  using Subscribe_after_Close [of "\<lparr> chans = [\<lparr> buf = [''agent_start''], cap = 1, chan_closed = True \<rparr>],
       listeners = [], bus_closed = True \<rparr>" 10]
  by (simp add: Subscribe_def make_chan_def)

section \<open>Remembered permissions\<close>

lemma found_loop_iff: "found_loop pattern ps \<longleftrightarrow> pattern \<in> set ps"
  by (induction ps) auto

lemma dec_string_elems_JStr: "dec_string_elems (map JStr xs) = Inr xs"
  by (induction xs) (simp_all add: dec_string_def)

lemma ToLower_field_names:
  "ToLower ''allow'' = ''allow''" "ToLower ''deny'' = ''deny''"
  "ToLower ''permissions'' = ''permissions''"
  by (simp_all add: ToLower_def lower_byte_def upper_letters_def lower_letters_def)

lemma Unmarshal_Marshal_PermissionSettings:
  "dec_struct PermissionSettings_field (Marshal_PermissionSettings ps) no_PermissionSettings = Inr ps"
  by (cases ps)
     (simp add: dec_struct_def Marshal_PermissionSettings_def PermissionSettings_field_def
        no_PermissionSettings_def dec_string_slice_def dec_string_elems_JStr ToLower_field_names)

lemma Marshal_PermissionSettings_not_null: "Marshal_PermissionSettings ps \<noteq> JNull"
  by (simp add: Marshal_PermissionSettings_def)

lemma Unmarshal_Marshal_Settings: "Unmarshal_Settings (Marshal_Settings s) = Inr s"
proof (cases "Permissions s")
  case None
  then show ?thesis
    by (cases s) (simp add: Unmarshal_Settings_def Marshal_Settings_def dec_struct_def)
next
  case (Some ps)
  obtain ms where ms: "Marshal_PermissionSettings ps = JObj ms"
    by (simp add: Marshal_PermissionSettings_def)
  have "dec_struct PermissionSettings_field (JObj ms) no_PermissionSettings = Inr ps"
    using Unmarshal_Marshal_PermissionSettings [of ps] ms by simp
  then have "Settings_field ''permissions'' (Marshal_PermissionSettings ps) \<lparr> Permissions = None \<rparr>
          = Inr \<lparr> Permissions = Some ps \<rparr>"
    by (simp add: Settings_field_def ToLower_field_names ms)
  with Some show ?thesis
    by (cases s) (simp add: Unmarshal_Settings_def Marshal_Settings_def dec_struct_def)
qed

lemma savePermission_found:
  assumes "files fs (settings_path pm scope) = Data (Doc doc)"
    and "Unmarshal_Settings doc = Inr settings"
    and "Permissions settings = Some perms"
    and "generatePattern req \<in> set (if allowed then Allow perms else Deny perms)"
    and "\<not> write_fails fs (settings_path pm scope)"
  shows "savePermission req allowed scope (pm, fs) =
           (None, pm, fs \<lparr> files := (files fs)(settings_path pm scope := Data (Doc (Marshal_Settings settings))) \<rparr>)"
proof -
  have same: "settings \<lparr> Permissions := Some perms \<rparr> = settings"
    using assms(3) by simp
  show ?thesis
    using assms
    by (cases allowed)
       (simp_all add: savePermission_def Let_def found_loop_iff persistSettings_def same)
qed

text \<open>
  C9 (as amended).  Remembering a decision whose pattern is already in the allow
  (respectively deny) list of the chosen settings file adds nothing: \<open>savePermission\<close>
  reports no error, leaves the manager's lists as they are and rewrites the file as the
  marshalled \<open>Settings\<close> it has just read, which unmarshals to the same allow and deny
  lists; saving once more leaves the file and the manager unchanged.  The rewritten file
  holds the \<open>permissions\<close> object only.
\<close>

theorem savePermission_present_pattern:
  assumes "files fs (settings_path pm scope) = Data (Doc doc)"
    and "Unmarshal_Settings doc = Inr settings"
    and "Permissions settings = Some perms"
    and "generatePattern req \<in> set (if allowed then Allow perms else Deny perms)"
    and "\<not> write_fails fs (settings_path pm scope)"
    and "fs' = fs \<lparr> files := (files fs)(settings_path pm scope := Data (Doc (Marshal_Settings settings))) \<rparr>"
  shows "savePermission req allowed scope (pm, fs) = (None, pm, fs')
         \<and> Unmarshal_Settings (Marshal_Settings settings) = Inr settings
         \<and> savePermission req allowed scope (pm, fs') = (None, pm, fs')"
proof -
  have first: "savePermission req allowed scope (pm, fs) = (None, pm, fs')"
    using savePermission_found [OF assms(1-5)] assms(6) by simp
  have again: "Unmarshal_Settings (Marshal_Settings settings) = Inr settings"
    by (rule Unmarshal_Marshal_Settings)
  have f': "files fs' (settings_path pm scope) = Data (Doc (Marshal_Settings settings))"
    and w': "\<not> write_fails fs' (settings_path pm scope)"
    using assms(5,6) by simp_all
  have "savePermission req allowed scope (pm, fs') =
          (None, pm, fs' \<lparr> files := (files fs')(settings_path pm scope := Data (Doc (Marshal_Settings settings))) \<rparr>)"
    by (rule savePermission_found [OF f' again assms(3,4) w'])
  moreover have "fs' \<lparr> files := (files fs')(settings_path pm scope := Data (Doc (Marshal_Settings settings))) \<rparr> = fs'"
    using assms(6) by simp
  ultimately show ?thesis using first again by simp
qed

lemmas settings_eval =
  example_fs_def example_manager_def settings_plain_def settings_with_theme_def
  settings_path_def Unmarshal_Settings_def Marshal_Settings_def Marshal_PermissionSettings_def
  dec_struct_def Settings_field_def PermissionSettings_field_def no_PermissionSettings_def
  dec_string_slice_def dec_string_def

theorem savePermission_present_pattern_witness:
  "savePermission (example_request ''Read'' ''a.txt'' None) True ''project''
      (example_manager, example_fs settings_plain)
     = (None, example_manager, example_fs settings_plain)"
  using savePermission_present_pattern
    [of "example_fs settings_plain" example_manager "''project''" settings_plain
        "\<lparr> Permissions = Some \<lparr> Allow = [''Read(*)''], Deny = [] \<rparr> \<rparr>"
        "\<lparr> Allow = [''Read(*)''], Deny = [] \<rparr>"
        "example_request ''Read'' ''a.txt'' None" True "example_fs settings_plain"]
  by (simp add: settings_eval example_request_def generatePattern_def string_eval)

text \<open>
  The claim as first stated keeps the file unchanged and preserves its other fields.  A
  settings file with a \<open>theme\<close> member and the rule \<open>Read(*)\<close> is rewritten without
  that member when \<open>Read(*)\<close> is remembered again.
\<close>

theorem savePermission_drops_fields_counterexample:
  "files (snd (snd (savePermission (example_request ''Read'' ''a.txt'' None) True ''project''
       (example_manager, example_fs settings_with_theme)))) ''/w/.cc-mono/settings.local.json''
     = Data (Doc settings_plain)
   \<and> files (example_fs settings_with_theme) ''/w/.cc-mono/settings.local.json''
     = Data (Doc settings_with_theme)
   \<and> settings_plain \<noteq> settings_with_theme"
  by (simp add: savePermission_def persistSettings_def Let_def settings_eval example_request_def
      generatePattern_def string_eval)

section \<open>Waiting for the user\<close>

lemma await_first_terminator:
  assumes "responseChan pm requestID = Some []" and "quiet_elsewhere requestID pm wakes"
  shows "await timer ctx requestID now wakes pm =
           (case first_terminator timer ctx requestID wakes of
              None \<Rightarrow> None
            | Some (Respond rid allowed remember scope) \<Rightarrow>
                Some (GotResponse \<lparr> resp_RequestID = requestID, Allowed = allowed,
                                     Remember = remember, Scope = scope, resp_Timestamp = now \<rparr>,
                      pm \<lparr> responseChan := (responseChan pm)(requestID \<mapsto>
                             [\<lparr> resp_RequestID = requestID, Allowed = allowed,
                                Remember = remember, Scope = scope, resp_Timestamp = now \<rparr>]) \<rparr>)
            | Some TimerFires \<Rightarrow> Some (TimedOut, pm)
            | Some (ContextDone e) \<Rightarrow> Some (Cancelled e, pm))"
  using assms
proof (induction wakes)
  case Nil
  show ?case by (simp add: first_terminator_def)
next
  case (Cons w ws)
  from Cons.prems have rest: "quiet_elsewhere requestID pm ws"
    by (simp add: quiet_elsewhere_def)
  note IH = Cons.IH [OF Cons.prems(1) rest]
  show ?case
  proof (cases w)
    case (Respond rid allowed remember scope)
    show ?thesis
    proof (cases "rid = requestID")
      case True
      with Respond Cons.prems(1) show ?thesis
        by (simp add: first_terminator_def terminates_def RespondToRequest_def)
    next
      case False
      with Cons.prems(2) Respond have "responseChan pm rid = None"
        by (simp add: quiet_elsewhere_def)
      with False Respond Cons.prems(1) IH show ?thesis
        by (simp add: first_terminator_def terminates_def RespondToRequest_def)
    qed
  next
    case TimerFires
    with IH show ?thesis
      by (cases timer) (simp_all add: first_terminator_def terminates_def)
  next
    case (ContextDone e)
    with IH show ?thesis
      by (cases ctx) (simp_all add: first_terminator_def terminates_def)
  qed
qed

lemma register_request_chan:
  "register_request sha clk req0 pm0 = (req, pm) \<Longrightarrow> responseChan pm (RequestID req) = Some []"
  by (auto simp: register_request_def Let_def)

lemma on_response_chan:
  "on_response resp req (pm \<lparr> responseChan := (responseChan pm)(RequestID req \<mapsto> q) \<rparr>) fs
     = on_response resp req pm fs"
  by (simp add: on_response_def clean_up_def)

lemma first_terminator_kind:
  "first_terminator timer ctx requestID wakes = Some w \<Longrightarrow> terminates timer ctx requestID w"
  unfolding first_terminator_def by (auto simp: find_Some_iff)

text \<open>
  C4 (as amended).  A call of \<open>RequestPermission\<close> blocks until the first of two
  events: a response delivered by \<open>RespondToRequest\<close> for its request id, or the firing of
  its 5-minute timer; the cancellation of a context does not concern it.  A call of
  \<open>RequestPermissionWithContext\<close> blocks until the first of two events: a response for
  its request id, or the cancellation of its context; it sets no timer.  The call returns
  what that first event determines: the response delivered, or, on timeout and on
  cancellation, a response with \<open>Allowed = False\<close> together with an error.  While no
  such event has happened the call has not returned.  (The responses that arrive for other
  requests during the wait are taken to find no full channel.)
\<close>

theorem RequestPermission_terminators:
  assumes "register_request sha clk req0 pm0 = (req, pm)"
    and "quiet_elsewhere (RequestID req) pm wakes"
  shows "RequestPermission sha clk req0 wakes (pm0, fs) =
           (case first_terminator True False (RequestID req) wakes of
              None \<Rightarrow> None
            | Some (Respond rid allowed remember scope) \<Rightarrow>
                Some (on_response (answer (RequestID req) allowed remember scope clk) req pm fs)
            | Some _ \<Rightarrow> Some (denial req pm clk ''permission request timed out'' fs))
         \<and> RequestPermissionWithContext sha clk req0 wakes (pm0, fs) =
           (case first_terminator False True (RequestID req) wakes of
              None \<Rightarrow> None
            | Some (Respond rid allowed remember scope) \<Rightarrow>
                Some (on_response (answer (RequestID req) allowed remember scope clk) req pm fs)
            | Some (ContextDone e) \<Rightarrow> Some (denial req pm clk e fs)
            | Some TimerFires \<Rightarrow> None)
         \<and> \<not> Allowed (response (denial req pm clk message fs))"
proof -
  note chan = register_request_chan [OF assms(1)]
  have a: "RequestPermission sha clk req0 wakes (pm0, fs) =
           (case first_terminator True False (RequestID req) wakes of
              None \<Rightarrow> None
            | Some (Respond rid allowed remember scope) \<Rightarrow>
                Some (on_response (answer (RequestID req) allowed remember scope clk) req pm fs)
            | Some _ \<Rightarrow> Some (denial req pm clk ''permission request timed out'' fs))"
  proof (cases "first_terminator True False (RequestID req) wakes")
    case None
    then show ?thesis
      by (simp add: RequestPermission_def assms(1) await_first_terminator [OF chan assms(2)])
  next
    case (Some w)
    from first_terminator_kind [OF Some] Some show ?thesis
      by (cases w)
         (simp_all add: RequestPermission_def assms(1) await_first_terminator [OF chan assms(2)]
            on_response_chan answer_def denial_def terminates_def)
  qed
  have b: "RequestPermissionWithContext sha clk req0 wakes (pm0, fs) =
           (case first_terminator False True (RequestID req) wakes of
              None \<Rightarrow> None
            | Some (Respond rid allowed remember scope) \<Rightarrow>
                Some (on_response (answer (RequestID req) allowed remember scope clk) req pm fs)
            | Some (ContextDone e) \<Rightarrow> Some (denial req pm clk e fs)
            | Some TimerFires \<Rightarrow> None)"
  proof (cases "first_terminator False True (RequestID req) wakes")
    case None
    then show ?thesis
      by (simp add: RequestPermissionWithContext_def assms(1)
          await_first_terminator [OF chan assms(2)])
  next
    case (Some w)
    from first_terminator_kind [OF Some] Some show ?thesis
      by (cases w)
         (simp_all add: RequestPermissionWithContext_def assms(1)
            await_first_terminator [OF chan assms(2)]
            on_response_chan answer_def denial_def terminates_def)
  qed
  have c: "\<not> Allowed (response (denial req pm clk message fs))"
    by (simp add: denial_def denied_def)
  from a b c show ?thesis by simp
qed


lemmas request_eval =
  RequestPermission_def RequestPermissionWithContext_def register_request_def Let_def
  example_ask_def example_clock_def RespondToRequest_def on_response_def clean_up_def
  denied_def answer_def quiet_elsewhere_def

theorem RequestPermission_terminators_witness:
  "map_option response
     (RequestPermission id example_clock example_ask
        [ContextDone ''context canceled'', TimerFires, Respond ''r1'' True False []]
        (example_manager, example_fs settings_plain))
     = Some (denied ''r1'' example_clock)
   \<and> map_option response
     (RequestPermissionWithContext id example_clock example_ask
        [ContextDone ''context canceled'', TimerFires, Respond ''r1'' True False []]
        (example_manager, example_fs settings_plain))
     = Some (denied ''r1'' example_clock)
   \<and> map_option response
     (RequestPermissionWithContext id example_clock example_ask
        [TimerFires, Respond ''r1'' True False [], ContextDone ''context canceled'']
        (example_manager, example_fs settings_plain))
     = Some (answer ''r1'' True False [] example_clock)"
proof -
  let ?req = "example_ask \<lparr> Timestamp := 5 \<rparr>"
  let ?pm = "example_manager \<lparr> pendingRequests := (pendingRequests example_manager)(''r1'' \<mapsto> ?req),
                              responseChan := (responseChan example_manager)(''r1'' \<mapsto> []) \<rparr>"
  let ?wakes = "[ContextDone ''context canceled'', TimerFires, Respond ''r1'' True False []]"
  have reg: "register_request id example_clock example_ask example_manager = (?req, ?pm)"
    by (simp add: register_request_def Let_def example_ask_def example_clock_def)
  have quiet: "quiet_elsewhere (RequestID ?req) ?pm ?wakes"
    by (simp add: quiet_elsewhere_def example_ask_def)
  from RequestPermission_terminators [OF reg quiet, of "example_fs settings_plain" "[]"]
  have "map_option response
     (RequestPermission id example_clock example_ask ?wakes
        (example_manager, example_fs settings_plain))
     = Some (denied ''r1'' example_clock)
   \<and> map_option response
     (RequestPermissionWithContext id example_clock example_ask ?wakes
        (example_manager, example_fs settings_plain))
     = Some (denied ''r1'' example_clock)"
    by (simp add: first_terminator_def terminates_def denial_def example_ask_def)
  moreover have "map_option response
     (RequestPermissionWithContext id example_clock example_ask
        [TimerFires, Respond ''r1'' True False [], ContextDone ''context canceled'']
        (example_manager, example_fs settings_plain))
     = Some (answer ''r1'' True False [] example_clock)"
    by (simp add: request_eval)
  ultimately show ?thesis by simp
qed

text \<open>
  The claim as first stated gives both functions all three terminators.  When the five
  minutes have passed \<open>RequestPermissionWithContext\<close> is still blocked, and when a context
  is cancelled \<open>RequestPermission\<close> is still blocked.
\<close>

theorem RequestPermission_terminators_counterexample:
  "RequestPermissionWithContext id example_clock example_ask [TimerFires]
      (example_manager, example_fs settings_plain) = None
   \<and> RequestPermission id example_clock example_ask [ContextDone ''context canceled'']
      (example_manager, example_fs settings_plain) = None"
  by (simp add: request_eval)

section \<open>Streaming and steering in the agent loop\<close>

lemma on_state_simps [simp]:
  "state (on_state f w) = f (state w)"
  "SteeringQueue (on_state f w) = SteeringQueue w"
  "FollowUpQueue (on_state f w) = FollowUpQueue w"
  "published (on_state f w) = published w"
  by (simp_all add: on_state_def)

lemma publish_simps [simp]:
  "state (publish e w) = state w"
  "SteeringQueue (publish e w) = SteeringQueue w"
  "FollowUpQueue (publish e w) = FollowUpQueue w"
  "published (publish e w) = published w @ [e]"
  by (simp_all add: publish_def)

lemma state_op_simps [simp]:
  "IsStreaming (SetStreamMessage m s) = IsStreaming s"
  "Messages (SetStreamMessage m s) = Messages s"
  "StreamMessage (SetStreamMessage m s) = m"
  "IsStreaming (AddPendingToolCall i s) = IsStreaming s"
  "Messages (AddPendingToolCall i s) = Messages s"
  "StreamMessage (AddPendingToolCall i s) = StreamMessage s"
  "IsStreaming (RemovePendingToolCall i s) = IsStreaming s"
  "Messages (RemovePendingToolCall i s) = Messages s"
  "StreamMessage (RemovePendingToolCall i s) = StreamMessage s"
  "IsStreaming (SetIsStreaming b s) = b"
  "Messages (SetIsStreaming b s) = Messages s"
  "StreamMessage (SetIsStreaming b s) = StreamMessage s"
  "IsStreaming (AddMessage m s) = IsStreaming s"
  "Messages (AddMessage m s) = Messages s @ [m]"
  "StreamMessage (AddMessage m s) = StreamMessage s"
  "IsStreaming (SetError e s) = IsStreaming s"
  "Messages (SetError e s) = Messages s"
  "StreamMessage (SetError e s) = StreamMessage s"
  by (simp_all add: SetStreamMessage_def AddPendingToolCall_def RemovePendingToolCall_def
      SetIsStreaming_def AddMessage_def SetError_def)

lemma event_loop_Arrives:
  "event_loop clk config closing (Arrives event # rest) acc w =
     (if EnableSteering config \<and> SteeringQueue w \<noteq> [] then (Interrupted, rest, acc, w)
      else if ev_Type event = ''error'' then
        (StreamFailed (''stream error: '' @ ev_Error event), rest, acc, w)
      else (case handle_event clk event acc w of
              (acc1, w1) \<Rightarrow> event_loop clk config closing rest acc1 w1))"
  by (simp add: handle_event_def Let_def split: option.splits)

declare event_loop.simps(4) [simp del]

lemma event_loop_interrupt:
  "EnableSteering config \<Longrightarrow> SteeringQueue w \<noteq> [] \<Longrightarrow>
     event_loop clk config closing (Arrives event # rest) acc w = (Interrupted, rest, acc, w)"
  by (simp add: event_loop_Arrives)

lemma event_loop_error:
  "\<not> (EnableSteering config \<and> SteeringQueue w \<noteq> []) \<Longrightarrow> ev_Type event = ''error'' \<Longrightarrow>
     event_loop clk config closing (Arrives event # rest) acc w =
       (StreamFailed (''stream error: '' @ ev_Error event), rest, acc, w)"
  by (auto simp: event_loop_Arrives)

lemma event_loop_step:
  "\<not> (EnableSteering config \<and> SteeringQueue w \<noteq> []) \<Longrightarrow> ev_Type event \<noteq> ''error'' \<Longrightarrow>
     handle_event clk event acc w = (acc1, w1) \<Longrightarrow>
     event_loop clk config closing (Arrives event # rest) acc w =
       event_loop clk config closing rest acc1 w1"
  by (auto simp: event_loop_Arrives)

lemma is_stream_message_stream_message [simp]: "is_stream_message clk (stream_message clk s a)"
  by (auto simp: is_stream_message_def)

lemma handle_event_queues:
  "handle_event clk event acc w = (acc1, w1) \<Longrightarrow>
     SteeringQueue w1 = SteeringQueue w \<and> FollowUpQueue w1 = FollowUpQueue w
     \<and> IsStreaming (state w1) = IsStreaming (state w)
     \<and> Messages (state w1) = Messages (state w)"
  by (auto simp: handle_event_def Let_def split: if_splits option.splits)

lemma handle_event_cursor:
  "handle_event clk event acc w = (acc1, w1) \<Longrightarrow>
     (if is_content_delta event then is_stream_message clk (StreamMessage (state w1))
      else StreamMessage (state w1) = StreamMessage (state w))"
  by (auto simp: handle_event_def Let_def is_content_delta_def
      split: if_splits option.splits)

lemma event_loop_cursor:
  "event_loop clk config closing its acc w = (exit, rest, acc', w') \<Longrightarrow>
     IsStreaming (state w') = IsStreaming (state w)
     \<and> Messages (state w') = Messages (state w)
     \<and> (if list_ex is_content_delta (processed config (SteeringQueue w) its)
         then is_stream_message clk (StreamMessage (state w'))
         else StreamMessage (state w') = StreamMessage (state w))"
proof (induction its arbitrary: acc w)
  case Nil
  then show ?case by (simp split: if_splits)
next
  case (Cons i its)
  show ?case
  proof (cases i)
    case (Steers m)
    with Cons.prems have "event_loop clk config closing its acc
        (w \<lparr> SteeringQueue := SteeringQueue w @ [m] \<rparr>) = (exit, rest, acc', w')"
      by simp
    from Cons.IH [OF this] Steers show ?thesis by simp
  next
    case (FollowsUp m)
    with Cons.prems have "event_loop clk config closing its acc
        (w \<lparr> FollowUpQueue := FollowUpQueue w @ [m] \<rparr>) = (exit, rest, acc', w')"
      by simp
    from Cons.IH [OF this] FollowsUp show ?thesis by simp
  next
    case (Arrives event)
    show ?thesis
    proof (cases "EnableSteering config \<and> SteeringQueue w \<noteq> []")
      case True
      with Cons.prems Arrives show ?thesis
        by (auto simp: event_loop_interrupt)
    next
      case no_steer: False
      show ?thesis
      proof (cases "ev_Type event = ''error''")
        case True
        from Cons.prems Arrives event_loop_error [OF no_steer True]
        have "w' = w" by simp
        with no_steer True Arrives show ?thesis
          by (auto simp: is_content_delta_def)
      next
        case False
        obtain acc1 w1 where h: "handle_event clk event acc w = (acc1, w1)"
          by (cases "handle_event clk event acc w")
        from Cons.prems Arrives event_loop_step [OF no_steer False h]
        have run: "event_loop clk config closing its acc1 w1 = (exit, rest, acc', w')"
          by simp
        note IH = Cons.IH [OF run]
        note q = handle_event_queues [OF h]
        note c = handle_event_cursor [OF h]
        show ?thesis
        proof (cases "is_content_delta event")
          case True
          with IH q c no_steer False Arrives show ?thesis
            by (auto split: if_splits)
        next
          case not_delta: False
          with IH q c no_steer False Arrives show ?thesis
            by (auto split: if_splits)
        qed
      qed
    qed
  qed
qed


lemma later_pushes_world:
  "state (later_pushes its w) = state w
   \<and> SteeringQueue (later_pushes its w) = SteeringQueue w @ steers_of its
   \<and> FollowUpQueue (later_pushes its w) = FollowUpQueue w @ follow_ups_of its
   \<and> published (later_pushes its w) = published w"
proof (induction its arbitrary: w)
  case Nil
  show ?case by simp
next
  case (Cons i its)
  show ?case by (cases i) (simp_all add: Cons.IH)
qed

lemma fold_pending_world:
  "SteeringQueue (fold (\<lambda>tc. on_state (f tc)) calls w) = SteeringQueue w
   \<and> FollowUpQueue (fold (\<lambda>tc. on_state (f tc)) calls w) = FollowUpQueue w
   \<and> published (fold (\<lambda>tc. on_state (f tc)) calls w) = published w"
  by (induction calls arbitrary: w) simp_all

lemma fold_add_pending_state:
  "IsStreaming (state (fold (\<lambda>tc. on_state (AddPendingToolCall (tc_ID tc))) calls w)) = IsStreaming (state w)
   \<and> Messages (state (fold (\<lambda>tc. on_state (AddPendingToolCall (tc_ID tc))) calls w)) = Messages (state w)
   \<and> StreamMessage (state (fold (\<lambda>tc. on_state (AddPendingToolCall (tc_ID tc))) calls w)) = StreamMessage (state w)"
  by (induction calls arbitrary: w) simp_all

lemma fold_remove_pending_state:
  "IsStreaming (state (fold (\<lambda>tc. on_state (RemovePendingToolCall (tc_ID tc))) calls w)) = IsStreaming (state w)
   \<and> Messages (state (fold (\<lambda>tc. on_state (RemovePendingToolCall (tc_ID tc))) calls w)) = Messages (state w)
   \<and> StreamMessage (state (fold (\<lambda>tc. on_state (RemovePendingToolCall (tc_ID tc))) calls w)) = StreamMessage (state w)"
  by (induction calls arbitrary: w) simp_all

text \<open>A world that differs from another in the pending tool calls and the streaming flag
  at most.\<close>

lemma executeToolCalls_world:
  "executeToolCalls clk exec config calls w = (r, w') \<Longrightarrow>
     Messages (state w') = Messages (state w) \<and> StreamMessage (state w') = StreamMessage (state w)
     \<and> IsStreaming (state w') = IsStreaming (state w)
     \<and> SteeringQueue w' = SteeringQueue w \<and> FollowUpQueue w' = FollowUpQueue w
     \<and> published w' = published w"
  by (auto simp: executeToolCalls_def fold_remove_pending_state fold_pending_world split: if_splits)

lemma processStream_shape:
  assumes "processStream clk exec config script w = Some (result, w')"
  shows "\<exists>exit rest acc w1.
           event_loop clk config (closes script) (items script) no_accum
             (on_state (SetIsStreaming True) w) = (exit, rest, acc, w1)
           \<and> exit \<noteq> Starved
           \<and> \<not> IsStreaming (state w')
           \<and> Messages (state w') = Messages (state w1)
           \<and> StreamMessage (state w') = StreamMessage (state w1)
           \<and> SteeringQueue w' = SteeringQueue w1 @ steers_of rest
           \<and> FollowUpQueue w' = FollowUpQueue w1 @ follow_ups_of rest
           \<and> published w' = published w1
           \<and> (snd (snd result) = None \<longrightarrow> made_by_loop clk (fst result))"
proof -
  obtain exit rest acc w1 where loop:
    "event_loop clk config (closes script) (items script) no_accum
       (on_state (SetIsStreaming True) w) = (exit, rest, acc, w1)"
    by (metis prod_cases4)
  note lp = later_pushes_world [of rest w1]
  show ?thesis
  proof (cases exit)
    case Starved
    with assms loop show ?thesis by (simp add: processStream_def)
  next
    case (StreamFailed e)
    with assms loop lp show ?thesis by (auto simp: processStream_def)
  next
    case Drained
    with assms loop lp show ?thesis
      by (auto simp: processStream_def Let_def fold_add_pending_state fold_pending_world
          made_by_loop_def
          split: option.splits if_splits prod.splits sum.splits
          dest!: executeToolCalls_world)
  next
    case Interrupted
    with assms loop lp show ?thesis
      by (auto simp: processStream_def Let_def fold_add_pending_state fold_pending_world
          made_by_loop_def
          split: option.splits if_splits prod.splits sum.splits
          dest!: executeToolCalls_world)
  qed
qed



lemmas loop_eval =
  processStream_def example_script_def example_steered_script_def example_world_def
  example_config_def example_loop_clock_def example_environment_def example_reply_def
  example_steer_def example_prompt_def example_model_def
  event_loop_Arrives handle_event_def stream_message_def Let_def
  NewTextDeltaEvent_def NewEndEvent_def blank_event_def NewAgentState_def no_accum_def no_Usage_def
  NewAssistantMessage_def NewTextContent_def NewThinkingContent_def NewUserTextMessage_def
  NewUserMessage_def no_AgentMessage_def
  on_state_def publish_def SetIsStreaming_def SetStreamMessage_def AddPendingToolCall_def
  RemovePendingToolCall_def AddMessage_def SetError_def
  format_int_def decimal.simps digit_def




subsection \<open>Steering\<close>

lemma event_loop_steering_interrupts:
  "EnableSteering config \<Longrightarrow> SteeringQueue w \<noteq> [] \<Longrightarrow> has_event its \<Longrightarrow>
     \<exists>rest w'. event_loop clk config closing its acc w = (Interrupted, rest, acc, w')
        \<and> state w' = state w \<and> published w' = published w"
proof (induction its arbitrary: w)
  case Nil
  then show ?case by simp
next
  case (Cons i its)
  show ?case
  proof (cases i)
    case (Arrives event)
    with Cons.prems show ?thesis by (simp add: event_loop_interrupt)
  next
    case (Steers m)
    with Cons.prems have "has_event its" by simp
    from Cons.IH [OF Cons.prems(1) _ this, of "w \<lparr> SteeringQueue := SteeringQueue w @ [m] \<rparr>"]
    show ?thesis using Steers by simp
  next
    case (FollowsUp m)
    with Cons.prems have "has_event its" by simp
    from Cons.IH [OF Cons.prems(1) _ this, of "w \<lparr> FollowUpQueue := FollowUpQueue w @ [m] \<rparr>"]
      Cons.prems(2)
    show ?thesis using FollowsUp by simp
  qed
qed

lemma event_loop_queues:
  "event_loop clk config closing its acc w = (exit, rest, acc', w') \<Longrightarrow>
     prefix (SteeringQueue w) (SteeringQueue w')
     \<and> set (FollowUpQueue w') \<union> set (follow_ups_of rest)
          \<subseteq> set (FollowUpQueue w) \<union> set (follow_ups_of its)"
proof (induction its arbitrary: acc w)
  case Nil
  then show ?case by (simp split: if_splits)
next
  case (Cons i its)
  show ?case
  proof (cases i)
    case (Steers m)
    with Cons.prems have "event_loop clk config closing its acc
        (w \<lparr> SteeringQueue := SteeringQueue w @ [m] \<rparr>) = (exit, rest, acc', w')"
      by simp
    from Cons.IH [OF this] Steers show ?thesis
      by (auto dest: append_prefixD)
  next
    case (FollowsUp m)
    with Cons.prems have "event_loop clk config closing its acc
        (w \<lparr> FollowUpQueue := FollowUpQueue w @ [m] \<rparr>) = (exit, rest, acc', w')"
      by simp
    from Cons.IH [OF this] FollowsUp show ?thesis by auto
  next
    case (Arrives event)
    show ?thesis
    proof (cases "EnableSteering config \<and> SteeringQueue w \<noteq> []")
      case True
      with Cons.prems Arrives show ?thesis
        by (auto simp: event_loop_interrupt)
    next
      case no_steer: False
      show ?thesis
      proof (cases "ev_Type event = ''error''")
        case True
        from Cons.prems Arrives event_loop_error [OF no_steer True]
        show ?thesis by auto
      next
        case False
        obtain acc1 w1 where h: "handle_event clk event acc w = (acc1, w1)"
          by (cases "handle_event clk event acc w")
        from Cons.prems Arrives event_loop_step [OF no_steer False h]
        have run: "event_loop clk config closing its acc1 w1 = (exit, rest, acc', w')"
          by simp
        from Cons.IH [OF run] handle_event_queues [OF h] Arrives show ?thesis
          by auto
      qed
    qed
  qed
qed


lemma processStream_effect:
  assumes "processStream clk exec config script w = Some (result, w')"
  shows "Messages (state w') = Messages (state w)
         \<and> \<not> IsStreaming (state w')
         \<and> prefix (SteeringQueue w) (SteeringQueue w')
         \<and> set (FollowUpQueue w') \<subseteq> set (FollowUpQueue w) \<union> set (follow_ups_of (items script))
         \<and> (snd (snd result) = None \<longrightarrow> made_by_loop clk (fst result))"
proof -
  from processStream_shape [OF assms] obtain exit rest acc w1 where
    loop: "event_loop clk config (closes script) (items script) no_accum
             (on_state (SetIsStreaming True) w) = (exit, rest, acc, w1)"
    and flag: "\<not> IsStreaming (state w')"
    and msgs: "Messages (state w') = Messages (state w1)"
    and sq: "SteeringQueue w' = SteeringQueue w1 @ steers_of rest"
    and fq: "FollowUpQueue w' = FollowUpQueue w1 @ follow_ups_of rest"
    and made: "snd (snd result) = None \<longrightarrow> made_by_loop clk (fst result)"
    by (elim exE conjE)
  from event_loop_cursor [OF loop] have m1: "Messages (state w1) = Messages (state w)"
    by simp
  from event_loop_queues [OF loop]
  have q1: "prefix (SteeringQueue w) (SteeringQueue w1)"
    and f1: "set (FollowUpQueue w1) \<union> set (follow_ups_of rest)
               \<subseteq> set (FollowUpQueue w) \<union> set (follow_ups_of (items script))"
    by simp_all
  from q1 sq have "prefix (SteeringQueue w) (SteeringQueue w')"
    by (simp add: prefix_prefix)
  moreover from f1 fq have "set (FollowUpQueue w') \<subseteq> set (FollowUpQueue w) \<union> set (follow_ups_of (items script))"
    by simp
  ultimately show ?thesis using flag msgs m1 made by simp
qed

lemma fold_AddMessage:
  "Messages (state (fold (\<lambda>x. on_state (AddMessage (f x))) xs w)) = Messages (state w) @ map f xs
   \<and> SteeringQueue (fold (\<lambda>x. on_state (AddMessage (f x))) xs w) = SteeringQueue w
   \<and> FollowUpQueue (fold (\<lambda>x. on_state (AddMessage (f x))) xs w) = FollowUpQueue w"
  by (induction xs arbitrary: w) simp_all

lemma fold_prompts:
  "Messages (state (fold (\<lambda>prompt w. publish (PromptAddedEvent prompt) (on_state (AddMessage prompt) w)) ps w))
     = Messages (state w) @ ps
   \<and> SteeringQueue (fold (\<lambda>prompt w. publish (PromptAddedEvent prompt) (on_state (AddMessage prompt) w)) ps w)
     = SteeringQueue w
   \<and> FollowUpQueue (fold (\<lambda>prompt w. publish (PromptAddedEvent prompt) (on_state (AddMessage prompt) w)) ps w)
     = FollowUpQueue w"
  by (induction ps arbitrary: w) simp_all

lemma script_follow_ups: "set (follow_ups_of (items (script_of env n h))) \<subseteq> pushed_follow_ups env"
  by (auto simp: pushed_follow_ups_def)

lemma tool_result_made: "made_by_loop clk (tool_result_message clk r)"
  by (auto simp: made_by_loop_def)

lemma turns_cancelled:
  "ctx_err env (nat n) = Some e0 \<Longrightarrow> turns env config n w = Some (Some e0, w)"
  by (subst turns.simps) simp

lemma turns_exhausted:
  "ctx_err env (nat n) = None \<Longrightarrow> n \<ge> MaxTurns config \<Longrightarrow>
     turns env config n w =
       Some (Some (''max turns ('' @ format_int (MaxTurns config) @ '') exceeded''), w)"
  by (subst turns.simps) simp

lemma turns_blocked:
  "ctx_err env (nat n) = None \<Longrightarrow> \<not> n \<ge> MaxTurns config \<Longrightarrow>
     processStream (clock_of env) (tool_outcome env) config
       (script_of env (nat n) (Messages (state w))) (publish TurnStartEvent w) = None \<Longrightarrow>
     turns env config n w = None"
  by (subst turns.simps) (simp add: Let_def)

lemma turns_failed:
  "ctx_err env (nat n) = None \<Longrightarrow> \<not> n \<ge> MaxTurns config \<Longrightarrow>
     processStream (clock_of env) (tool_outcome env) config
       (script_of env (nat n) (Messages (state w))) (publish TurnStartEvent w)
       = Some ((am, rs, Some e1), w2) \<Longrightarrow>
     turns env config n w =
       Some (Some (''stream processing failed: '' @ e1),
             publish (ErrorEvent e1 ''stream processing'') (on_state (SetError e1) w2))"
  by (subst turns.simps) (simp add: Let_def)

lemma turns_next:
  "ctx_err env (nat n) = None \<Longrightarrow> \<not> n \<ge> MaxTurns config \<Longrightarrow>
     processStream (clock_of env) (tool_outcome env) config
       (script_of env (nat n) (Messages (state w))) (publish TurnStartEvent w)
       = Some ((am, rs, None), w2) \<Longrightarrow>
     turns env config n w =
       (if FollowUpQueue w2 \<noteq> [] \<or> rs \<noteq> []
        then turns env config (n + 1) (end_of_turn (clock_of env) am rs w2)
        else Some (None, end_of_turn (clock_of env) am rs w2))"
  by (subst turns.simps) (simp add: Let_def end_of_turn_def fold_AddMessage)

lemma end_of_turn_world:
  "Messages (state (end_of_turn clk am rs w2)) =
     Messages (state w2) @ [am] @ map (tool_result_message clk) rs @ FollowUpQueue w2
   \<and> SteeringQueue (end_of_turn clk am rs w2) = SteeringQueue w2
   \<and> FollowUpQueue (end_of_turn clk am rs w2) = []"
  using fold_AddMessage [of "\<lambda>m. m"]
  by (simp add: end_of_turn_def Let_def fold_AddMessage)

lemma turns_history:
  "turns env config n w = Some (e, w') \<Longrightarrow>
     prefix (SteeringQueue w) (SteeringQueue w')
     \<and> set (Messages (state w')) \<subseteq>
         set (Messages (state w)) \<union> set (FollowUpQueue w) \<union> pushed_follow_ups env
         \<union> Collect (made_by_loop (clock_of env))"
proof (induction "nat (MaxTurns config - n)" arbitrary: n w rule: less_induct)
  case less
  let ?G = "pushed_follow_ups env \<union> Collect (made_by_loop (clock_of env))"
  show ?case
  proof (cases "ctx_err env (nat n)")
    case (Some e0)
    with less.prems have "w' = w" by (simp add: turns_cancelled)
    then show ?thesis by auto
  next
    case None
    show ?thesis
    proof (cases "n \<ge> MaxTurns config")
      case True
      with None less.prems have "w' = w" by (simp add: turns_exhausted)
      then show ?thesis by auto
    next
      case False
      let ?run = "processStream (clock_of env) (tool_outcome env) config
                    (script_of env (nat n) (Messages (state w))) (publish TurnStartEvent w)"
      have "?run \<noteq> None"
      proof
        assume "?run = None"
        from turns_blocked [OF None False this] less.prems show False by simp
      qed
      then obtain am rs err w2 where run: "?run = Some ((am, rs, err), w2)"
        by (metis not_None_eq prod_cases3 surj_pair)
      from processStream_effect [OF run]
      have m2: "Messages (state w2) = Messages (state w)"
        and q2: "prefix (SteeringQueue w) (SteeringQueue w2)"
        and f2: "set (FollowUpQueue w2) \<subseteq> set (FollowUpQueue w) \<union> pushed_follow_ups env"
        and made: "err = None \<longrightarrow> made_by_loop (clock_of env) am"
        using script_follow_ups [of env "nat n" "Messages (state w)"] by auto
      show ?thesis
      proof (cases err)
        case (Some e1)
        from less.prems turns_failed [OF None False run [unfolded Some]]
        have "w' = publish (ErrorEvent e1 ''stream processing'') (on_state (SetError e1) w2)"
          by simp
        with m2 q2 show ?thesis by auto
      next
        case no_err: None
        let ?w6 = "end_of_turn (clock_of env) am rs w2"
        note step = turns_next [OF None False run [unfolded no_err]]
        note w6 = end_of_turn_world [of "clock_of env" am rs w2]
        from made no_err have am_made: "made_by_loop (clock_of env) am" by simp
        have sub6: "set (Messages (state ?w6)) \<subseteq> set (Messages (state w)) \<union> set (FollowUpQueue w) \<union> ?G"
          using w6 m2 f2 am_made by (auto simp: tool_result_made)
        show ?thesis
        proof (cases "FollowUpQueue w2 \<noteq> [] \<or> rs \<noteq> []")
          case True
          with less.prems step
          have next_turn: "turns env config (n + 1) ?w6 = Some (e, w')"
            by simp
          from False have "nat (MaxTurns config - (n + 1)) < nat (MaxTurns config - n)" by simp
          from less.hyps [OF this next_turn]
          have a: "prefix (SteeringQueue ?w6) (SteeringQueue w')"
            and b: "set (Messages (state w')) \<subseteq> set (Messages (state ?w6)) \<union> set (FollowUpQueue ?w6) \<union> ?G"
            by (simp_all add: Un_assoc)
          from a w6 q2 have "prefix (SteeringQueue w) (SteeringQueue w')"
            by (metis prefix_order.trans)
          moreover have "set (Messages (state w')) \<subseteq>
              set (Messages (state w)) \<union> set (FollowUpQueue w) \<union> ?G"
          proof -
            from w6 have "FollowUpQueue ?w6 = []" by simp
            with b have "set (Messages (state w')) \<subseteq> set (Messages (state ?w6)) \<union> ?G"
              by simp
            with sub6 show ?thesis by blast
          qed
          ultimately show ?thesis by (simp add: Un_assoc)
        next
          case stop: False
          with less.prems step have "w' = ?w6" by simp
          with w6 q2 sub6 show ?thesis by (simp add: Un_assoc)
        qed
      qed
    qed
  qed
qed


text \<open>
  C2 (as amended).  When steering is enabled and the steering queue is non-empty as the
  event loop of \<open>processStream\<close> takes an event, the loop closes the stream and breaks:
  that event is not processed, the accumulators and the agent state are as before, nothing
  is published.  The steering message stays where it is: \<open>AgentLoop\<close> never takes a
  message off the steering queue, and every message of the history after a run was in the
  history before, is one of the prompts, was on the follow-up queue or was pushed on it
  during the run, or is an assistant message or tool result wrapped by the loop itself.
\<close>

theorem steering_interrupts_and_stays_queued:
  "(EnableSteering config \<and> SteeringQueue w \<noteq> [] \<and> has_event its \<longrightarrow>
      (\<exists>rest w1. event_loop clk config closing its acc w = (Interrupted, rest, acc, w1)
          \<and> state w1 = state w \<and> published w1 = published w))
   \<and> (AgentLoop env prompts config w = Some (e, w') \<longrightarrow>
        prefix (SteeringQueue w) (SteeringQueue w')
        \<and> set (Messages (state w')) \<subseteq>
            set (Messages (state w)) \<union> set prompts \<union> set (FollowUpQueue w)
            \<union> pushed_follow_ups env \<union> Collect (made_by_loop (clock_of env)))"
proof (intro conjI impI)
  assume "EnableSteering config \<and> SteeringQueue w \<noteq> [] \<and> has_event its"
  then show "\<exists>rest w1. event_loop clk config closing its acc w = (Interrupted, rest, acc, w1)
          \<and> state w1 = state w \<and> published w1 = published w"
    using event_loop_steering_interrupts [of config w its clk closing acc] by simp
next
  assume run: "AgentLoop env prompts config w = Some (e, w')"
  let ?w2 = "fold (\<lambda>prompt w. publish (PromptAddedEvent prompt) (on_state (AddMessage prompt) w))
               prompts (publish AgentStartEvent w)"
  from run obtain w3 where t: "turns env config 0 ?w2 = Some (e, w3)"
    and w': "w' = publish (AgentEndEvent (Messages (state w3))) w3"
    by (auto simp: AgentLoop_def Let_def split: option.splits)
  note start = fold_prompts [of prompts "publish AgentStartEvent w"]
  from turns_history [OF t] start w'
  show "prefix (SteeringQueue w) (SteeringQueue w')" by simp
  from turns_history [OF t] start w'
  show "set (Messages (state w')) \<subseteq>
            set (Messages (state w)) \<union> set prompts \<union> set (FollowUpQueue w)
            \<union> pushed_follow_ups env \<union> Collect (made_by_loop (clock_of env))"
    by auto
qed

lemmas agent_eval =
  AgentLoop_def turns.simps executeToolCalls_def tool_result_message_def
  NewToolResultMessage_def NewToolCall_def example_two_turns_def example_tool_reply_def

text \<open>
  The claim as first stated routes the steering message into the history before the next
  turn.  In a run of two turns (the first stream is steered and its result asks for a
  tool, so that a second turn follows) the loop ends without error with four messages in
  the history, the steering message is not one of them, and it is still on the steering
  queue.
\<close>

theorem steering_interrupts_and_stays_queued_counterexample:
  "AgentLoop example_two_turns [example_prompt] example_config example_world \<noteq> None
   \<and> fst (the (AgentLoop example_two_turns [example_prompt] example_config example_world)) = None
   \<and> length (Messages (state (snd (the
         (AgentLoop example_two_turns [example_prompt] example_config example_world))))) = 4
   \<and> example_steer \<notin> set (Messages (state (snd (the
         (AgentLoop example_two_turns [example_prompt] example_config example_world)))))
   \<and> SteeringQueue (snd (the
         (AgentLoop example_two_turns [example_prompt] example_config example_world)))
       = [example_steer]"
  by (simp add: agent_eval loop_eval)


theorem steering_interrupts_and_stays_queued_witness:
  "fst (event_loop example_loop_clock example_config True (items example_script) no_accum
          (example_world \<lparr> SteeringQueue := [example_steer] \<rparr>)) = Interrupted
   \<and> prefix [example_steer]
        (SteeringQueue (snd (the (AgentLoop (example_environment example_script) [example_prompt]
            example_config (example_world \<lparr> SteeringQueue := [example_steer] \<rparr>)))))"
proof -
  let ?w = "example_world \<lparr> SteeringQueue := [example_steer] \<rparr>"
  let ?env = "example_environment example_script"
  let ?run = "AgentLoop ?env [example_prompt] example_config ?w"
  have pre: "EnableSteering example_config \<and> SteeringQueue ?w \<noteq> [] \<and> has_event (items example_script)"
    by (simp add: example_config_def example_script_def)
  have "?run \<noteq> None"
    by (simp add: agent_eval loop_eval)
  then have run: "?run = Some (fst (the ?run), snd (the ?run))"
    by auto
  from steering_interrupts_and_stays_queued
    [of example_config ?w "items example_script" example_loop_clock True no_accum
        ?env "[example_prompt]" "fst (the ?run)" "snd (the ?run)"]
    pre run
  show ?thesis by auto
qed

section \<open>Messages through JSON and back\<close>




















end
